theory Spec2Isabelle
  imports Complex_Main
begin

section \<open>Python values and exceptions\<close>

text \<open>
  The program is Python. Numbers that the program only adds and compares (costs, times, values of
  LP variables) are modelled as \<^typ>\<open>real\<close>; \<open>None\<close> is \<^term>\<open>None\<close>. An exception is the left
  summand of a result: \<open>Inl e\<close> means that the call raised \<open>e\<close>.
\<close>

datatype py_error =
    IndexError
  | KeyError
  | TypeError
  | NetworkXNoPath
  | Exception string

text \<open>A node of a networkx graph is any hashable value; the program uses the strings
  \<open>"Source"\<close> and \<open>"Sink"\<close> and, for customers, integers or strings.\<close>

datatype node = Str string | Num int

abbreviation Source :: node where
  "Source \<equiv> Str ''Source''"

abbreviation Sink :: node where
  "Sink \<equiv> Str ''Sink''"

text \<open>The position that the index \<open>i\<close> denotes in a list of \<open>n\<close> elements: an index below
  0 counts from the end, and an index outside \<open>-n, ..., n - 1\<close> denotes no position.\<close>

definition py_index :: "nat \<Rightarrow> int \<Rightarrow> nat option" where
  "py_index n i =
     (if 0 \<le> i \<and> i < int n then Some (nat i)
      else if - int n \<le> i \<and> i < 0 then Some (nat (int n + i))
      else None)"

text \<open>\<open>xs[i]\<close> and \<open>xs[i] = v\<close>; both raise \<open>IndexError\<close> where the index denotes no
  position.\<close>

definition py_get :: "'a list \<Rightarrow> int \<Rightarrow> py_error + 'a" where
  "py_get xs i = (case py_index (length xs) i of None \<Rightarrow> Inl IndexError | Some k \<Rightarrow> Inr (xs ! k))"

definition py_set :: "'a list \<Rightarrow> int \<Rightarrow> 'a \<Rightarrow> py_error + 'a list" where
  "py_set xs i v =
     (case py_index (length xs) i of None \<Rightarrow> Inl IndexError | Some k \<Rightarrow> Inr (xs[k := v]))"

text \<open>A \<open>for\<close> loop over a list whose body may raise: the first exception ends the loop.\<close>

fun for_loop :: "'a list \<Rightarrow> ('a \<Rightarrow> 's \<Rightarrow> py_error + 's) \<Rightarrow> 's \<Rightarrow> py_error + 's" where
  "for_loop [] body s = Inr s"
| "for_loop (x # xs) body s =
     (case body x s of Inl e \<Rightarrow> Inl e | Inr s' \<Rightarrow> for_loop xs body s')"

section \<open>The knapsack bound on the number of stops\<close>

text \<open>
  \<open>VehicleRoutingProblem.knapsack\<close> (main.py). The table \<open>sol\<close> has one row per item and
  \<open>capacity + 1\<close> columns, all zero at first. The row above row \<open>i\<close> is read as \<open>sol[i - 1]\<close>: for
  \<open>i = 0\<close> this is \<open>sol[-1]\<close>, the last row of the table. The table \<open>added\<close> of the source is
  written and never read; it is left out.
\<close>

definition knapsack_cell :: "int list \<Rightarrow> nat \<Rightarrow> nat \<Rightarrow> int list list \<Rightarrow> py_error + int list list" where
  "knapsack_cell weights i j sol =
     (case py_get sol (int i - 1) of Inl e \<Rightarrow> Inl e | Inr prev \<Rightarrow>
     (case py_get sol (int i) of Inl e \<Rightarrow> Inl e | Inr row \<Rightarrow>
     (case py_get weights (int i) of Inl e \<Rightarrow> Inl e | Inr w \<Rightarrow>
        if w > int j then
          (case py_get prev (int j) of Inl e \<Rightarrow> Inl e | Inr keep \<Rightarrow>
          (case py_set row (int j) keep of Inl e \<Rightarrow> Inl e | Inr row' \<Rightarrow> py_set sol (int i) row'))
        else
          (case py_get prev (int j - w) of Inl e \<Rightarrow> Inl e | Inr rest \<Rightarrow>
          (case py_get prev (int j) of Inl e \<Rightarrow> Inl e | Inr keep \<Rightarrow>
          (case py_set row (int j) (if 1 + rest > keep then 1 + rest else keep) of
             Inl e \<Rightarrow> Inl e | Inr row' \<Rightarrow> py_set sol (int i) row'))))))"

definition knapsack :: "int list \<Rightarrow> int \<Rightarrow> py_error + int" where
  "knapsack weights capacity =
     (let n = length weights;
          sol = replicate n (replicate (nat (capacity + 1)) (0::int))
      in case for_loop [0..<n]
                (\<lambda>i. for_loop [0..<nat (capacity + 1)] (\<lambda>j. knapsack_cell weights i j)) sol of
           Inl e \<Rightarrow> Inl e
         | Inr sol' \<Rightarrow>
             (case py_get sol' (int n - 1) of Inl e \<Rightarrow> Inl e | Inr row \<Rightarrow> py_get row capacity))"

text \<open>What the docstring promises (``maximum number of objects''): the largest number of items
  whose weights sum to at most the capacity, by enumeration of all selections.\<close>

definition max_items :: "int list \<Rightarrow> int \<Rightarrow> nat" where
  "max_items weights capacity =
     Max (set (map length (filter (\<lambda>sel. sum_list sel \<le> capacity) (subseqs weights))))"

section \<open>Graphs, routes and the master problem\<close>

text \<open>
  The network \<open>G\<close> is a networkx \<open>DiGraph\<close>: its nodes in insertion order, their attribute
  dictionaries, and for every edge the list \<open>cost\<close> with one entry per vehicle type.
\<close>

record network =
  node_list :: "node list"
  node_attr :: "node \<Rightarrow> (string \<rightharpoonup> real)"
  edge_cost :: "node \<times> node \<rightharpoonup> real list"

text \<open>
  A route is a \<open>DiGraph\<close> of its own. The graph attributes \<open>name\<close>, \<open>cost\<close> and
  \<open>vehicle_type\<close> are set when the route is built; \<open>heuristic\<close> is set later, so that
  reading it may raise \<open>KeyError\<close>.
\<close>

record digraph =
  name :: nat
  nodes :: "node list"
  edges :: "node \<times> node \<rightharpoonup> real"
  cost :: real
  vehicle_type :: nat
  heuristic :: "string option"

text \<open>\<open>DiGraph(name=route_id)\<close>: no node, no edge; \<open>cost\<close> and \<open>vehicle_type\<close> are assigned
  before the graph is used.\<close>

definition DiGraph :: "nat \<Rightarrow> digraph" where
  "DiGraph route_id =
     \<lparr>name = route_id, nodes = [], edges = Map.empty, cost = 0, vehicle_type = 0,
      heuristic = None\<rparr>"

definition add_node :: "node \<Rightarrow> digraph \<Rightarrow> digraph" where
  "add_node v g = (if v \<in> set (nodes g) then g else g\<lparr>nodes := nodes g @ [v]\<rparr>)"

text \<open>\<open>G.add_edge(i, j, cost=c)\<close> adds the end points when they are new, and sets the attribute
  of the edge (also when the edge is already there).\<close>

definition add_edge :: "node \<Rightarrow> node \<Rightarrow> real \<Rightarrow> digraph \<Rightarrow> digraph" where
  "add_edge i j c g = (add_node j (add_node i g))\<lparr>edges := (edges g)((i, j) \<mapsto> c)\<rparr>"

text \<open>
  The pulp model of the master problem, written column by column. A constraint
  (\<open>LpConstraintVar\<close>) is named by what it bounds; a variable carries its column, the list of its
  coefficients in the constraints and in the objective, and, after a solve, its value.
\<close>

datatype constr_ref = Visit node | Bound nat | Objective

datatype lp_cat = LpContinuous | LpInteger

datatype lp_sense = LpConstraintGE | LpConstraintLE

datatype lp_status = NotSolved | Optimal | Infeasible | Unbounded | Undefined

text \<open>\<open>pulp.LpStatus\<close>, the names of the statuses.\<close>

fun LpStatus :: "lp_status \<Rightarrow> string" where
  "LpStatus NotSolved = ''Not Solved''"
| "LpStatus Optimal = ''Optimal''"
| "LpStatus Infeasible = ''Infeasible''"
| "LpStatus Unbounded = ''Unbounded''"
| "LpStatus Undefined = ''Undefined''"

record lp_variable =
  lowBound :: "real option"
  upBound :: "real option"
  cat :: lp_cat
  expression :: "(constr_ref \<times> real) list"
  varValue :: "real option"

record lp_constraint =
  sense :: lp_sense
  rhs :: real

datatype var_ref = Y nat | Drop node | Dummy node | DummyBound nat | Shadowed nat

text \<open>What a run of the external solver leaves in the problem: the status, the value of the
  objective, the values of the variables and the dual values (\<open>pi\<close>) of the constraints.\<close>

record lp_solution =
  sol_status :: lp_status
  sol_objective :: "real option"
  sol_value :: "var_ref \<Rightarrow> real option"
  sol_pi :: "constr_ref \<Rightarrow> real option"

text \<open>
  \<open>MasterSolvePulp\<close>. \<open>mp_routes\<close> is the attribute \<open>routes\<close>, the pool of routes the master
  problem was built with; \<open>y\<close>, \<open>drop_vars\<close>, \<open>dummy\<close> and \<open>dummy_bound\<close> are the dictionaries
  of variables (\<open>drop_vars\<close> is \<open>drop\<close>, kept in insertion order because it is iterated);
  \<open>prob_status\<close>, \<open>prob_objective\<close> and \<open>prob_pi\<close> are what \<open>prob\<close> holds after a solve.
  The constraints of \<open>prob\<close> are those of \<open>set_covering_constrs\<close> and
  \<open>vehicle_bound_constrs\<close>; asking \<open>prob.constraints\<close> for another one raises \<open>KeyError\<close>.

  A variable built with \<open>e=...\<close> is entered into the constraint objects of its expression, and
  these keep it for good, whereas the dictionary \<open>y\<close> has one entry per route name. When an
  entry of \<open>y\<close> is overwritten, the variable it held is still a column of the problem.
  \<open>shadowed\<close> is not an attribute of the program: it lists these variables, with the names
  they were stored under, in the order in which they lost their entries. The columns of the
  routes are thus the variables of \<open>y\<close> together with those of \<open>shadowed\<close>. The solver refers to
  the latter by their positions in the list.
\<close>

record master =
  mp_G :: network
  mp_routes :: "digraph list"
  drop_penalty :: "real option"
  num_vehicles :: "real list"
  periodic :: "real option"
  solver :: string
  y :: "nat \<rightharpoonup> lp_variable"
  shadowed :: "(nat \<times> lp_variable) list"
  drop_vars :: "(node \<times> lp_variable) list"
  dummy :: "node \<rightharpoonup> lp_variable"
  dummy_bound :: "nat \<rightharpoonup> lp_variable"
  set_covering_constrs :: "node \<rightharpoonup> lp_constraint"
  vehicle_bound_constrs :: "nat \<rightharpoonup> lp_constraint"
  dropped_nodes :: "node list"
  prob_status :: lp_status
  prob_objective :: "real option"
  prob_pi :: "constr_ref \<Rightarrow> real option"

text \<open>The dual values handed to the pricing problem: one per visited node and, when the number
  of vehicles is bounded, one per vehicle type under the key \<open>upper_bound_vehicles\<close>.\<close>

record duals =
  node_duals :: "node \<rightharpoonup> real option"
  upper_bound_vehicles :: "(nat \<rightharpoonup> real option) option"

section \<open>The collaborators\<close>

text \<open>
  The LP solver (pulp), the pricing subproblems (\<open>SubProblemCSPY\<close>, \<open>SubProblemLP\<close>,
  \<open>SubProblemGreedy\<close>), the diving heuristic, the class \<open>HyperHeuristic\<close> and the clock are not
  part of the files under study. They act on a world \<open>'w\<close> that the program cannot inspect; the
  model is parametric in them, so every theorem holds whatever they answer. They are taken to
  return; logging is left out.

  A subproblem is built with a reference to the pool of routes (\<open>self._routes\<close>, the same list
  object as the master problem's \<open>routes\<close>) and may extend it in place. In the model a
  pricing call therefore takes the pool and returns, next to the list of routes and the flag
  that \<open>solve\<close> returns, the pool as it leaves it.
\<close>

text \<open>One call \<open>self._def_subproblem(duals, vehicle, strategy, parameter).solve(time)\<close>.\<close>

record pricing_call =
  call_strategy :: string
  call_parameter :: "real option"
  call_vehicle :: nat
  call_duals :: duals
  call_time :: "real option"

record 'w ext =
  time_now :: "'w \<Rightarrow> real \<times> 'w"
  lp_solve :: "master \<Rightarrow> real option \<Rightarrow> 'w \<Rightarrow> lp_solution \<times> 'w"
  lp_resolve :: "master \<Rightarrow> 'w \<Rightarrow> lp_solution \<times> 'w"
  run_dive :: "master \<Rightarrow> 'w \<Rightarrow> master \<times> 'w"
  subproblem_solve ::
    "pricing_call \<Rightarrow> digraph list \<Rightarrow> 'w \<Rightarrow> (digraph list \<times> bool \<times> digraph list) \<times> 'w"
  greedy_solve ::
    "duals \<Rightarrow> nat \<Rightarrow> digraph list \<Rightarrow> 'w \<Rightarrow> (digraph list \<times> bool \<times> digraph list) \<times> 'w"
  hh_initialisation :: "'w \<Rightarrow> bool"
  hh_set_initialisation :: "bool \<Rightarrow> 'w \<Rightarrow> 'w"
  hh_performance_measure :: "'w \<Rightarrow> string"
  hh_incr_n_exact :: "'w \<Rightarrow> 'w"
  hh_set_timeend :: "real \<Rightarrow> 'w \<Rightarrow> 'w"
  set_current_objective :: "real option \<Rightarrow> 'w \<Rightarrow> 'w"
  set_initial_time :: "'w \<Rightarrow> 'w"
  current_performance :: "real option \<Rightarrow> bool option \<Rightarrow> (string \<rightharpoonup> nat) \<Rightarrow> 'w \<Rightarrow> 'w"
  move_acceptance :: "'w \<Rightarrow> bool \<times> 'w"
  update_parameters :: "'w \<Rightarrow> 'w"
  pick_heurestic :: "'w \<Rightarrow> string \<times> 'w"
  store_info_heuristic :: "'w \<Rightarrow> 'w"

text \<open>Python's truth value of an optional number: \<open>None\<close> and \<open>0\<close> are false.\<close>

definition truthy :: "real option \<Rightarrow> bool" where
  "truthy x = (x \<noteq> None \<and> x \<noteq> Some 0)"

section \<open>The master problem (master\_solve\_pulp.py)\<close>

text \<open>\<open>_add_route_selection_variable\<close>: the column of a route has coefficient 1 in the covering
  constraint of each of its nodes other than Source and Sink, coefficient 1 in the bound of its
  vehicle type, and its cost in the objective. A dictionary lookup that fails raises. The new
  variable always enters the problem; it is stored in \<open>y\<close> under the name of the route, and a
  variable that \<open>y\<close> held under that name stays in the problem without an entry.\<close>

definition covering_terms :: "master \<Rightarrow> digraph \<Rightarrow> py_error + (constr_ref \<times> real) list" where
  "covering_terms m route =
     (let rs = filter (\<lambda>r. r \<noteq> Source \<and> r \<noteq> Sink) (nodes route)
      in if list_all (\<lambda>r. set_covering_constrs m r \<noteq> None) rs
         then Inr (map (\<lambda>r. (Visit r, 1)) rs) else Inl KeyError)"

definition bound_terms :: "master \<Rightarrow> digraph \<Rightarrow> py_error + (constr_ref \<times> real) list" where
  "bound_terms m route =
     (let ks = filter (\<lambda>k. vehicle_type route = k) [0..<length (num_vehicles m)]
      in if list_all (\<lambda>k. vehicle_bound_constrs m k \<noteq> None) ks
         then Inr (map (\<lambda>k. (Bound k, 1)) ks) else Inl KeyError)"

definition route_column :: "master \<Rightarrow> digraph \<Rightarrow> py_error + lp_variable" where
  "route_column m route =
     (case covering_terms m route of Inl e \<Rightarrow> Inl e | Inr cs \<Rightarrow>
     (case bound_terms m route of Inl e \<Rightarrow> Inl e | Inr bs \<Rightarrow>
        Inr \<lparr>lowBound = Some 0, upBound = Some 1, cat = LpInteger,
             expression = cs @ bs @ [(Objective, cost route)], varValue = None\<rparr>))"

definition add_route_selection_variable :: "digraph \<Rightarrow> master \<Rightarrow> py_error + master" where
  "add_route_selection_variable route m =
     (case route_column m route of Inl e \<Rightarrow> Inl e
      | Inr v \<Rightarrow>
          Inr (m\<lparr>y := (y m)(name route \<mapsto> v),
                 shadowed := (case y m (name route) of None \<Rightarrow> shadowed m
                              | Some old \<Rightarrow> shadowed m @ [(name route, old)])\<rparr>))"

text \<open>\<open>update\<close>: ``Add new column.''\<close>

definition update :: "digraph \<Rightarrow> master \<Rightarrow> py_error + master" where
  "update new_route m = add_route_selection_variable new_route m"

text \<open>\<open>_solve\<close> first sets the type of every variable of the problem (\<open>prob.variables()\<close>),
  with or without an entry in a dictionary. On an integer solve the variables whose
  name contains \<open>artificial_bound_\<close> are fixed to 0: these are the variables of \<open>dummy_bound\<close>
  and, their names being \<open>drop_\<close> or \<open>periodic_\<close> followed by the node, the variables of a node
  whose own name contains that text.\<close>

fun contains :: "string \<Rightarrow> string \<Rightarrow> bool" where
  "contains pat [] = (pat = [])"
| "contains pat (c # cs) = (take (length pat) (c # cs) = pat \<or> contains pat cs)"

fun names_artificial_bound :: "node \<Rightarrow> bool" where
  "names_artificial_bound (Str s) = contains ''artificial_bound_'' s"
| "names_artificial_bound (Num i) = False"

definition set_cat :: "bool \<Rightarrow> bool \<Rightarrow> lp_variable \<Rightarrow> lp_variable" where
  "set_cat relax artificial v =
     (if relax then v\<lparr>cat := LpContinuous\<rparr>
      else if artificial then v\<lparr>cat := LpInteger, upBound := Some 0, lowBound := Some 0\<rparr>
      else v\<lparr>cat := LpInteger\<rparr>)"

definition set_variable_types :: "bool \<Rightarrow> master \<Rightarrow> master" where
  "set_variable_types relax m =
     m\<lparr>y := (\<lambda>k. map_option (set_cat relax False) (y m k)),
       shadowed := map (\<lambda>(k, v). (k, set_cat relax False v)) (shadowed m),
       drop_vars := map (\<lambda>(v, x). (v, set_cat relax (names_artificial_bound v) x)) (drop_vars m),
       dummy := (\<lambda>v. map_option (set_cat relax (names_artificial_bound v)) (dummy m v)),
       dummy_bound := (\<lambda>k. map_option (set_cat relax True) (dummy_bound m k))\<rparr>"

text \<open>What the solver leaves in the problem after it has run.\<close>

definition store_solution :: "lp_solution \<Rightarrow> master \<Rightarrow> master" where
  "store_solution sol m =
     m\<lparr>prob_status := sol_status sol,
       prob_objective := sol_objective sol,
       prob_pi := sol_pi sol,
       y := (\<lambda>k. map_option (\<lambda>v. v\<lparr>varValue := sol_value sol (Y k)\<rparr>) (y m k)),
       shadowed :=
         map (\<lambda>(i, k, v). (k, v\<lparr>varValue := sol_value sol (Shadowed i)\<rparr>))
           (zip [0..<length (shadowed m)] (shadowed m)),
       drop_vars := map (\<lambda>(n, v). (n, v\<lparr>varValue := sol_value sol (Drop n)\<rparr>)) (drop_vars m),
       dummy := (\<lambda>n. map_option (\<lambda>v. v\<lparr>varValue := sol_value sol (Dummy n)\<rparr>) (dummy m n)),
       dummy_bound :=
         (\<lambda>k. map_option (\<lambda>v. v\<lparr>varValue := sol_value sol (DummyBound k)\<rparr>) (dummy_bound m k))\<rparr>"

text \<open>\<open>_solve\<close>: the solver runs only when its name is one of the three known ones.\<close>

definition solve_lp :: "'w ext \<Rightarrow> bool \<Rightarrow> real option \<Rightarrow> master \<Rightarrow> 'w \<Rightarrow> master \<times> 'w" where
  "solve_lp X relax time_limit m w =
     (let m1 = set_variable_types relax m
      in if solver m1 = ''cbc'' \<or> solver m1 = ''cplex'' \<or> solver m1 = ''gurobi''
         then (let (sol, w1) = lp_solve X m1 time_limit w in (store_solution sol m1, w1))
         else (m1, w))"

text \<open>\<open>get_duals\<close>, called without a relaxed copy of the problem.\<close>

definition get_duals :: "master \<Rightarrow> py_error + duals" where
  "get_duals m =
     (let G = mp_G m;
          vs = filter (\<lambda>v. v \<noteq> Source \<and> v \<noteq> Sink \<and> node_attr G v ''depot_from'' = None
                            \<and> node_attr G v ''depot_to'' = None) (node_list G);
          bounded = (num_vehicles m \<noteq> [] \<and> \<not> truthy (periodic m));
          ks = [0..<length (num_vehicles m)]
      in if \<not> list_all (\<lambda>v. set_covering_constrs m v \<noteq> None) vs then Inl KeyError
         else if bounded \<and> \<not> list_all (\<lambda>k. vehicle_bound_constrs m k \<noteq> None) ks then Inl KeyError
         else Inr \<lparr>node_duals = (\<lambda>v. if v \<in> set vs then Some (prob_pi m (Visit v)) else None),
                   upper_bound_vehicles =
                     (if bounded
                      then Some (\<lambda>k. if k < length (num_vehicles m) then Some (prob_pi m (Bound k))
                                      else None)
                      else None)\<rparr>)"

text \<open>\<open>pulp.value(self.y[r.graph["name"]])\<close>: the dictionary lookup may raise; the value of a
  variable that no solve has touched is \<open>None\<close>.\<close>

definition y_value :: "master \<Rightarrow> digraph \<Rightarrow> py_error + real option" where
  "y_value m r = (case y m (name r) of None \<Rightarrow> Inl KeyError | Some v \<Rightarrow> Inr (varValue v))"

text \<open>The loop of \<open>solve\<close> that logs the routes with a value above 0.5: comparing \<open>None\<close> with a
  number raises \<open>TypeError\<close>.\<close>

fun log_selected :: "master \<Rightarrow> digraph list \<Rightarrow> py_error + unit" where
  "log_selected m [] = Inr ()"
| "log_selected m (r # rs) =
     (case y_value m r of Inl e \<Rightarrow> Inl e
      | Inr None \<Rightarrow> Inl TypeError
      | Inr (Some v) \<Rightarrow> log_selected m rs)"

definition solve ::
  "'w ext \<Rightarrow> bool \<Rightarrow> real option \<Rightarrow> master \<Rightarrow> 'w \<Rightarrow> py_error + ((duals \<times> real option) \<times> master \<times> 'w)" where
  "solve X relax time_limit m w =
     (let (m1, w1) = solve_lp X relax time_limit m w
      in if LpStatus (prob_status m1) \<noteq> ''Optimal''
         then Inl (Exception (''problem '' @ LpStatus (prob_status m1)))
         else case (if relax then log_selected m1 (mp_routes m1) else Inr ()) of
                Inl e \<Rightarrow> Inl e
              | Inr u \<Rightarrow>
                  (case get_duals m1 of Inl e \<Rightarrow> Inl e
                   | Inr d \<Rightarrow> Inr ((d, prob_objective m1), m1, w1)))"

text \<open>\<open>solve_and_dive\<close> checks no status.\<close>

definition solve_and_dive ::
  "'w ext \<Rightarrow> real option \<Rightarrow> master \<Rightarrow> 'w \<Rightarrow> py_error + ((duals \<times> real option) \<times> master \<times> 'w)" where
  "solve_and_dive X time_limit m w =
     (let (m1, w1) = solve_lp X True time_limit m w;
          (m2, w2) = run_dive X m1 w1;
          (sol, w3) = lp_resolve X m2 w2;
          m3 = store_solution sol m2
      in case get_duals m3 of Inl e \<Rightarrow> Inl e
         | Inr d \<Rightarrow> Inr ((d, prob_objective m3), m3, w3))"

text \<open>The test \<open>val is not None and val > 0\<close> on the variable of a route.\<close>

definition positive_value :: "master \<Rightarrow> digraph \<Rightarrow> bool" where
  "positive_value m r =
     (case y m (name r) of None \<Rightarrow> False
      | Some v \<Rightarrow> (case varValue v of None \<Rightarrow> False | Some x \<Rightarrow> x > 0))"

text \<open>The first loop of \<open>get_total_cost_and_routes\<close>: a route is kept when the value of its
  variable is not \<open>None\<close> and is greater than 0.\<close>

fun best_routes_of :: "master \<Rightarrow> digraph list \<Rightarrow> py_error + digraph list" where
  "best_routes_of m [] = Inr []"
| "best_routes_of m (r # rs) =
     (case y_value m r of Inl e \<Rightarrow> Inl e
      | Inr val \<Rightarrow>
          (case best_routes_of m rs of Inl e \<Rightarrow> Inl e
           | Inr best \<Rightarrow>
               Inr (if val \<noteq> None \<and> the val > 0 then r # best else best)))"

text \<open>\<open>[v for v in self.drop if pulp.value(self.drop[v]) > 0.5]\<close>.\<close>

fun dropped_of :: "(node \<times> lp_variable) list \<Rightarrow> py_error + node list" where
  "dropped_of [] = Inr []"
| "dropped_of ((v, x) # rest) =
     (case varValue x of None \<Rightarrow> Inl TypeError
      | Some val \<Rightarrow>
          (case dropped_of rest of Inl e \<Rightarrow> Inl e
           | Inr ds \<Rightarrow> Inr (if val > 0.5 then v # ds else ds)))"

definition get_total_cost_and_routes ::
  "'w ext \<Rightarrow> bool \<Rightarrow> master \<Rightarrow> 'w \<Rightarrow> py_error + ((real \<times> digraph list) \<times> master \<times> 'w)" where
  "get_total_cost_and_routes X relax m w =
     (case best_routes_of m (mp_routes m) of Inl e \<Rightarrow> Inl e
      | Inr best_routes \<Rightarrow>
          (case (if truthy (drop_penalty m) then dropped_of (drop_vars m)
                 else Inr (dropped_nodes m)) of
             Inl e \<Rightarrow> Inl e
           | Inr ds \<Rightarrow>
               (let m1 = m\<lparr>dropped_nodes := ds\<rparr>;
                    (sol, w1) = lp_resolve X m1 w;
                    m2 = store_solution sol m1;
                    total_cost = (if truthy (prob_objective m2) then the (prob_objective m2) else 0)
                in Inr ((total_cost, best_routes), m2, w1))))"

text \<open>\<open>get_heuristic_distribution\<close>: the selected routes and, per strategy, how many of them it
  produced. A selected route whose tag is missing or is not one of the five keys gets the tag
  \<open>Other\<close> (the \<open>try\<close> with its bare \<open>except\<close>); this changes the route object in the pool.\<close>

definition initial_distribution :: "string \<rightharpoonup> nat" where
  "initial_distribution =
     [''BestPaths'' \<mapsto> 0, ''BestEdges1'' \<mapsto> 0, ''BestEdges2'' \<mapsto> 0, ''Exact'' \<mapsto> 0,
      ''Other'' \<mapsto> 0]"

definition count_route :: "digraph \<Rightarrow> (string \<rightharpoonup> nat) \<Rightarrow> digraph \<times> (string \<rightharpoonup> nat)" where
  "count_route r freq =
     (case (case heuristic r of None \<Rightarrow> None
            | Some h \<Rightarrow> (case freq h of None \<Rightarrow> None | Some c \<Rightarrow> Some (h, c))) of
        Some (h, c) \<Rightarrow> (r, freq(h \<mapsto> c + 1))
      | None \<Rightarrow>
          (r\<lparr>heuristic := Some ''Other''\<rparr>,
           freq(''Other'' \<mapsto> (case freq ''Other'' of None \<Rightarrow> 0 | Some c \<Rightarrow> c) + 1)))"

fun distribution_loop ::
  "master \<Rightarrow> digraph list \<Rightarrow> digraph list \<times> (string \<rightharpoonup> nat) \<times> digraph list \<Rightarrow>
   py_error + (digraph list \<times> (string \<rightharpoonup> nat) \<times> digraph list)" where
  "distribution_loop m [] acc = Inr acc"
| "distribution_loop m (r # rs) (best, freq, seen) =
     (case y_value m r of Inl e \<Rightarrow> Inl e
      | Inr val \<Rightarrow>
          if val \<noteq> None \<and> the val > 0
          then (let (r', freq') = count_route r freq
                in distribution_loop m rs (best @ [r'], freq', seen @ [r']))
          else distribution_loop m rs (best, freq, seen @ [r]))"

definition get_heuristic_distribution ::
  "master \<Rightarrow> py_error + ((digraph list \<times> (string \<rightharpoonup> nat)) \<times> master)" where
  "get_heuristic_distribution m =
     (case distribution_loop m (mp_routes m) ([], initial_distribution, []) of
        Inl e \<Rightarrow> Inl e
      | Inr (best, freq, pool) \<Rightarrow> Inr ((best, freq), m\<lparr>mp_routes := pool\<rparr>))"

section \<open>The column generation loop (main.py)\<close>

text \<open>
  The attributes of \<open>VehicleRoutingProblem\<close> that the loop reads or writes. \<open>routes_pool\<close> is
  \<open>_routes\<close>; it is the list object that the master problem holds as \<open>routes\<close>, and the model
  keeps the two equal. \<open>calls\<close> is not an attribute of the program: it records, in order, every
  pricing call made through \<open>_def_subproblem(...).solve\<close> outside the greedy pass, with the flag
  the call returned.
\<close>

record vrp =
  vrp_G :: network
  time_windows :: bool
  pickup_delivery :: bool
  distribution_collection :: bool
  masterproblem :: master
  routes :: "digraph list"
  time_limit :: "real option"
  pricing_strategy :: string
  dive :: bool
  start_time :: real
  greedy :: bool
  max_iter :: "nat option"
  more_routes :: bool
  iteration :: nat
  no_improvement :: nat
  lower_bound :: "real option list"
  vehicle_types :: nat
  initial_routes :: "node list list"
  preassignments :: "node list list"
  routes_pool :: "digraph list"
  routes_with_node :: "node \<rightharpoonup> digraph list"
  produced_column :: "bool option"
  do_exact :: nat
  calls :: "(pricing_call \<times> bool) list"

text \<open>\<open>_get_time_remaining\<close>. The clock is read only when a time limit is set; \<open>if
  self._time_limit\<close> takes \<open>None\<close> and \<open>0\<close> for ``not set''.\<close>

definition get_time_remaining :: "'w ext \<Rightarrow> vrp \<Rightarrow> bool \<Rightarrow> 'w \<Rightarrow> real option \<times> 'w" where
  "get_time_remaining X s mip w =
     (if truthy (time_limit s)
      then (let (now, w1) = time_now X w;
                remaining_time = the (time_limit s) - (now - start_time s)
            in if mip then (Some (max 5 remaining_time), w1)
               else if remaining_time > 0 then (Some remaining_time, w1)
               else (Some 0, w1))
      else (None, w))"

text \<open>The shared pool, under both of its names.\<close>

definition set_pool :: "digraph list \<Rightarrow> vrp \<Rightarrow> vrp" where
  "set_pool pool s =
     s\<lparr>routes_pool := pool, masterproblem := (masterproblem s)\<lparr>mp_routes := pool\<rparr>\<rparr>"

text \<open>\<open>self.routes, self._more_routes = self._def_subproblem(duals, vehicle, strategy,
  parameter).solve(self._get_time_remaining())\<close>.\<close>

definition call_subproblem ::
  "'w ext \<Rightarrow> string \<Rightarrow> real option \<Rightarrow> nat \<Rightarrow> duals \<Rightarrow> vrp \<Rightarrow> 'w \<Rightarrow> vrp \<times> 'w" where
  "call_subproblem X strategy parameter vehicle d s w =
     (let (t, w1) = get_time_remaining X s False w;
          c = \<lparr>call_strategy = strategy, call_parameter = parameter, call_vehicle = vehicle,
               call_duals = d, call_time = t\<rparr>;
          ((rs, more, pool), w2) = subproblem_solve X c (routes_pool s) w1
      in (set_pool pool (s\<lparr>routes := rs, more_routes := more, calls := calls s @ [(c, more)]\<rparr>),
          w2))"

text \<open>The \<open>for ... else\<close> loop shared by the three non-exact attempts: \<open>produced_column\<close> is
  the flag of the latest call, the loop is left at the first call whose flag is true, and when
  the list is exhausted the \<open>else\<close> branch sets \<open>_more_routes\<close> to true.\<close>

fun sweep ::
  "'w ext \<Rightarrow> string \<Rightarrow> nat \<Rightarrow> duals \<Rightarrow> bool \<Rightarrow> real list \<Rightarrow> vrp \<Rightarrow> 'w \<Rightarrow> bool \<times> vrp \<times> 'w" where
  "sweep X strategy vehicle d produced [] s w = (produced, s\<lparr>more_routes := True\<rparr>, w)"
| "sweep X strategy vehicle d produced (p # ps) s w =
     (let (s1, w1) = call_subproblem X strategy (Some p) vehicle d s w
      in if more_routes s1 then (more_routes s1, s1, w1)
         else sweep X strategy vehicle d (more_routes s1) ps s1 w1)"

definition attempt_solve_best_paths ::
  "'w ext \<Rightarrow> nat \<Rightarrow> duals \<Rightarrow> vrp \<Rightarrow> 'w \<Rightarrow> bool \<times> vrp \<times> 'w" where
  "attempt_solve_best_paths X vehicle d s w =
     sweep X ''BestPaths'' vehicle d False [3, 5, 7, 9] s w"

definition attempt_solve_BestEdges1 ::
  "'w ext \<Rightarrow> nat \<Rightarrow> duals \<Rightarrow> vrp \<Rightarrow> 'w \<Rightarrow> bool \<times> vrp \<times> 'w" where
  "attempt_solve_BestEdges1 X vehicle d s w =
     sweep X ''BestEdges1'' vehicle d False [0.3, 0.5, 0.7, 0.9] s w"

definition attempt_solve_BestEdges2 ::
  "'w ext \<Rightarrow> nat \<Rightarrow> duals \<Rightarrow> vrp \<Rightarrow> 'w \<Rightarrow> bool \<times> vrp \<times> 'w" where
  "attempt_solve_BestEdges2 X vehicle d s w =
     sweep X ''BestEdges2'' vehicle d False [0.1, 0.2, 0.3] s w"

text \<open>\<open>_attempt_solve_Exact\<close>: one call, with the default strategy \<open>Exact\<close> and no parameter.\<close>

definition attempt_solve_Exact ::
  "'w ext \<Rightarrow> nat \<Rightarrow> duals \<Rightarrow> vrp \<Rightarrow> 'w \<Rightarrow> bool \<times> vrp \<times> 'w" where
  "attempt_solve_Exact X vehicle d s w =
     (let (s1, w1) = call_subproblem X ''Exact'' None vehicle d s w
      in (more_routes s1, s1, w1))"

text \<open>\<open>_solve_subproblem_with_heuristic\<close>. With the configured strategy \<open>Hyper\<close> the chosen
  strategy alone is attempted; otherwise (``old approach'') the exact attempt follows whenever
  the chosen strategy is \<open>Exact\<close> or has produced no column.\<close>

definition solve_subproblem_with_heuristic ::
  "'w ext \<Rightarrow> string \<Rightarrow> nat \<Rightarrow> duals \<Rightarrow> vrp \<Rightarrow> 'w \<Rightarrow> bool \<times> vrp \<times> 'w" where
  "solve_subproblem_with_heuristic X strategy vehicle d s w =
     (if pricing_strategy s = ''Hyper'' then
        (if strategy = ''BestPaths'' then attempt_solve_best_paths X vehicle d s w
         else if strategy = ''BestEdges1'' then attempt_solve_BestEdges1 X vehicle d s w
         else if strategy = ''BestEdges2'' then attempt_solve_BestEdges2 X vehicle d s w
         else if strategy = ''Exact'' then attempt_solve_Exact X vehicle d s (hh_incr_n_exact X w)
         else (False, s, w))
      else
        (let (produced, s1, w1) =
               (if strategy = ''BestPaths'' then attempt_solve_best_paths X vehicle d s w
                else if strategy = ''BestEdges1'' then attempt_solve_BestEdges1 X vehicle d s w
                else if strategy = ''BestEdges2'' then attempt_solve_BestEdges2 X vehicle d s w
                else (False, s, w))
         in if strategy = ''Exact'' \<or> \<not> produced then attempt_solve_Exact X vehicle d s1 w1
            else (produced, s1, w1)))"

text \<open>The body of the loop over the vehicle types, first part: the randomised greedy pass. Its
  routes are added to the master problem unless a column of that name is there already.\<close>

definition greedy_pass ::
  "'w ext \<Rightarrow> nat \<Rightarrow> duals \<Rightarrow> vrp \<Rightarrow> 'w \<Rightarrow> py_error + (vrp \<times> 'w)" where
  "greedy_pass X vehicle d s w =
     (if greedy s \<and> \<not> time_windows s \<and> \<not> distribution_collection s \<and> \<not> pickup_delivery s
      then (let ((rs, more, pool), w1) = greedy_solve X d vehicle (routes_pool s) w;
                s1 = set_pool pool (s\<lparr>routes := rs, more_routes := more\<rparr>)
            in if more
               then (case for_loop rs (\<lambda>r m. if y m (name r) \<noteq> None then Inr m else update r m)
                            (masterproblem s1) of
                       Inl e \<Rightarrow> Inl e
                     | Inr m' \<Rightarrow> Inr (s1\<lparr>masterproblem := m'\<rparr>, w1))
               else Inr (s1, w1))
      else Inr (s, w))"

text \<open>Second part (``Continue searching for columns''): the flag is cleared, the chosen
  strategy is attempted, and when the attempt has produced a column the last route of
  \<open>self.routes\<close> is tagged with the strategy and handed to \<open>masterproblem.update\<close>. The tag is
  written to the route object; whether that object is also an element of the pool is decided by
  the subproblem, so the model tags the element of \<open>routes\<close> only.\<close>

definition price_vehicle ::
  "'w ext \<Rightarrow> string \<Rightarrow> nat \<Rightarrow> duals \<Rightarrow> vrp \<Rightarrow> 'w \<Rightarrow> py_error + (vrp \<times> 'w)" where
  "price_vehicle X strategy vehicle d s w =
     (let (produced, s1, w1) =
            solve_subproblem_with_heuristic X strategy vehicle d (s\<lparr>more_routes := False\<rparr>) w;
          s2 = s1\<lparr>produced_column := Some produced\<rparr>
      in if more_routes s2 then
           (if produced then
              (case py_get (routes s2) (- 1) of Inl e \<Rightarrow> Inl e | Inr r \<Rightarrow>
              (case py_set (routes s2) (- 1) (r\<lparr>heuristic := Some strategy\<rparr>) of Inl e \<Rightarrow> Inl e
               | Inr rs \<Rightarrow>
              (case update (r\<lparr>heuristic := Some strategy\<rparr>) (masterproblem s2) of Inl e \<Rightarrow> Inl e
               | Inr m' \<Rightarrow> Inr (s2\<lparr>routes := rs, masterproblem := m'\<rparr>, w1))))
            else Inr (s2, w1))
         else (let (now, w2) = time_now X w1 in Inr (s2, hh_set_timeend X now w2)))"

definition find_columns_vehicle ::
  "'w ext \<Rightarrow> string \<Rightarrow> duals \<Rightarrow> nat \<Rightarrow> vrp \<times> 'w \<Rightarrow> py_error + (vrp \<times> 'w)" where
  "find_columns_vehicle X strategy d vehicle sw =
     (case greedy_pass X vehicle d (fst sw) (snd sw) of Inl e \<Rightarrow> Inl e
      | Inr (s1, w1) \<Rightarrow> price_vehicle X strategy vehicle d s1 w1)"

text \<open>``pick the heuristic'': the strategy of this iteration. When the counter of iterations
  without improvement equals \<open>do_exact\<close> the counter is set back to 0 and the strategy is
  \<open>Exact\<close>, whatever the configured strategy.\<close>

definition pick_strategy ::
  "'w ext \<Rightarrow> real option \<Rightarrow> (string \<rightharpoonup> nat) \<Rightarrow> vrp \<Rightarrow> 'w \<Rightarrow> string \<times> vrp \<times> 'w" where
  "pick_strategy X relaxed_cost freq s w =
     (if pricing_strategy s = ''Hyper'' \<and> \<not> no_improvement s = do_exact s then
        (if hh_initialisation X w
         then (let s1 = (if hh_performance_measure X w = ''Relative improvement''
                         then s\<lparr>do_exact := 30\<rparr> else s);
                   w1 = set_current_objective X relaxed_cost w;
                   w2 = set_initial_time X w1;
                   w3 = hh_set_initialisation X False w2
               in (''BestPaths'', s1, w3))
         else (let w1 = current_performance X relaxed_cost (produced_column s) freq w;
                   (upd, w2) = move_acceptance X w1;
                   w3 = update_parameters X w2;
                   (strategy, w4) = pick_heurestic X w3
               in (strategy, s, w4)))
      else if no_improvement s = do_exact s then (''Exact'', s\<lparr>no_improvement := 0\<rparr>, w)
      else (pricing_strategy s, s, w))"

text \<open>The relaxed master problem of the iteration, solved within the time that remains.\<close>

definition solve_master ::
  "'w ext \<Rightarrow> vrp \<Rightarrow> 'w \<Rightarrow> py_error + ((duals \<times> real option) \<times> master \<times> 'w)" where
  "solve_master X s w =
     (let (t, w1) = get_time_remaining X s False w
      in if dive s then solve_and_dive X t (masterproblem s) w1
         else solve X True t (masterproblem s) w1)"

text \<open>``Keep track of convergence rate and update stopping criteria parameters''.
  \<open>self._lower_bound[-1]\<close> is read only when the iteration is not the first, and raises on an
  empty list.\<close>

definition track_convergence :: "real option \<Rightarrow> vrp \<Rightarrow> py_error + vrp" where
  "track_convergence relaxed_cost s =
     (let s1 = s\<lparr>iteration := iteration s + 1\<rparr>
      in case (if iteration s1 > 1
               then (case py_get (lower_bound s1) (- 1) of Inl e \<Rightarrow> Inl e
                     | Inr lb \<Rightarrow> Inr (relaxed_cost = lb))
               else Inr False) of
           Inl e \<Rightarrow> Inl e
         | Inr same \<Rightarrow>
             (let s2 = (if same then s1\<lparr>no_improvement := no_improvement s1 + 1\<rparr>
                        else s1\<lparr>no_improvement := 0\<rparr>)
              in Inr (if \<not> dive s2 then s2\<lparr>lower_bound := lower_bound s2 @ [relaxed_cost]\<rparr>
                      else s2)))"

text \<open>\<open>_find_columns\<close>: one iteration.\<close>

definition find_columns :: "'w ext \<Rightarrow> vrp \<Rightarrow> 'w \<Rightarrow> py_error + (vrp \<times> 'w)" where
  "find_columns X s w =
     (case solve_master X s w of Inl e \<Rightarrow> Inl e | Inr ((d, relaxed_cost), m1, w1) \<Rightarrow>
     (case get_heuristic_distribution m1 of Inl e \<Rightarrow> Inl e | Inr ((best_paths, freq), m2) \<Rightarrow>
        (let s1 = set_pool (mp_routes m2) (s\<lparr>masterproblem := m2\<rparr>);
             (strategy, s2, w2) = pick_strategy X relaxed_cost freq s1 w1
         in case for_loop [0..<vehicle_types s2] (find_columns_vehicle X strategy d) (s2, w2) of
              Inl e \<Rightarrow> Inl e
            | Inr (s3, w3) \<Rightarrow>
                (case track_convergence relaxed_cost s3 of Inl e \<Rightarrow> Inl e
                 | Inr s4 \<Rightarrow>
                     Inr (s4,
                          if hh_performance_measure X w3 = ''Weighted average''
                             \<and> pricing_strategy s4 = ''Hyper''
                          then store_info_heuristic X w3 else w3)))))"

text \<open>The two tests after each iteration of \<open>_column_generation\<close>. The first reads the clock
  twice; a remaining time is a float exactly when it is not \<open>None\<close>.\<close>

definition time_up :: "'w ext \<Rightarrow> vrp \<Rightarrow> 'w \<Rightarrow> bool \<times> 'w" where
  "time_up X s w =
     (let (t1, w1) = get_time_remaining X s False w
      in if t1 \<noteq> None
         then (let (t2, w2) = get_time_remaining X s False w1 in (t2 = Some 0, w2))
         else (False, w1))"

definition limit_passed :: "vrp \<Rightarrow> bool" where
  "limit_passed s =
     (no_improvement s > 1000 \<or>
      (case max_iter s of None \<Rightarrow> False | Some k \<Rightarrow> k \<noteq> 0 \<and> iteration s \<ge> k))"

text \<open>
  \<open>solve\<close> sets \<open>_more_routes\<close> to true and then, through \<open>_pre_solve\<close>, calls \<open>_lock\<close> when
  there are preassigned routes, before the loop is entered.

  \<open>G.remove_nodes_from\<close> (networkx): the nodes go, with their attributes and the edges at them;
  a node that is not in the graph is passed over.
\<close>

definition remove_nodes_from :: "node list \<Rightarrow> network \<Rightarrow> network" where
  "remove_nodes_from vs G =
     G\<lparr>node_list := filter (\<lambda>v. v \<notin> set vs) (node_list G),
       node_attr := (\<lambda>v. if v \<in> set vs then Map.empty else node_attr G v),
       edge_cost := (\<lambda>e. if fst e \<in> set vs \<or> snd e \<in> set vs then None else edge_cost G e)\<rparr>"

text \<open>\<open>self.G.edges[i, j]["cost"][k] = 0\<close>.\<close>

definition set_cost_zero :: "node \<times> node \<Rightarrow> nat \<Rightarrow> network \<Rightarrow> py_error + network" where
  "set_cost_zero e k G =
     (case edge_cost G e of None \<Rightarrow> Inl KeyError
      | Some cs \<Rightarrow>
          (case py_set cs (int k) 0 of Inl err \<Rightarrow> Inl err
           | Inr cs' \<Rightarrow> Inr (G\<lparr>edge_cost := (edge_cost G)(e \<mapsto> cs')\<rparr>)))"

text \<open>The body of the loop of \<open>_lock\<close>: a preassigned route from Source to Sink is complete and
  its inner nodes \<open>route[1:-1]\<close> are removed from the network; the edges of any other route get
  the cost 0 for every vehicle type. \<open>route[0]\<close> raises on an empty route.\<close>

definition lock_route :: "nat \<Rightarrow> node list \<Rightarrow> network \<Rightarrow> py_error + network" where
  "lock_route types route G =
     (case py_get route 0 of Inl e \<Rightarrow> Inl e
      | Inr first \<Rightarrow>
          if first = Source \<and> py_get route (- 1) = Inr Sink
          then Inr (remove_nodes_from (butlast (tl route)) G)
          else for_loop (zip (butlast route) (tl route))
                 (\<lambda>e. for_loop [0..<types] (set_cost_zero e)) G)"

text \<open>\<open>_lock\<close>. ``If all vertices are locked, do not generate columns'': when the network is
  left with two nodes the flag \<open>_more_routes\<close> is cleared.\<close>

definition lock :: "vrp \<Rightarrow> py_error + vrp" where
  "lock s =
     (case for_loop (preassignments s) (lock_route (vehicle_types s)) (vrp_G s) of
        Inl e \<Rightarrow> Inl e
      | Inr G \<Rightarrow>
          Inr (if length (node_list G) = 2 then s\<lparr>vrp_G := G, more_routes := False\<rparr>
               else s\<lparr>vrp_G := G\<rparr>))"

text \<open>\<open>_column_generation\<close>. The loop need not end, so the model counts iterations: with \<open>n\<close>
  iterations allowed the result is \<open>None\<close> when the loop is still running after \<open>n\<close> of
  them, and otherwise says how the loop was left: by its condition, by the clock, or by the
  limits on the iterations.\<close>

datatype loop_exit = Converged | TimeUp | LimitPassed

fun column_generation ::
  "nat \<Rightarrow> 'w ext \<Rightarrow> vrp \<Rightarrow> 'w \<Rightarrow> (py_error + (loop_exit \<times> vrp \<times> 'w)) option" where
  "column_generation 0 X s w =
     (if more_routes s then None else Some (Inr (Converged, s, w)))"
| "column_generation (Suc n) X s w =
     (if more_routes s then
        (case find_columns X s w of Inl e \<Rightarrow> Some (Inl e)
         | Inr (s1, w1) \<Rightarrow>
             (let (up, w2) = time_up X s1 w1
              in if up then Some (Inr (TimeUp, s1, w2))
                 else if limit_passed s1 then Some (Inr (LimitPassed, s1, w2))
                 else column_generation n X s1 w2))
      else Some (Inr (Converged, s, w)))"

text \<open>``Solve as MIP'', the step of \<open>VehicleRoutingProblem.solve\<close> that follows the loop when
  no diving is asked for and the network has more than two nodes: the master problem is solved
  with integer variables, with at least 5 seconds, and the routes are read off. Neither call
  is guarded, so an exception of the master problem ends \<open>solve\<close>.\<close>

definition solve_as_mip ::
  "'w ext \<Rightarrow> vrp \<Rightarrow> 'w \<Rightarrow> py_error + ((real \<times> digraph list) \<times> vrp \<times> 'w)" where
  "solve_as_mip X s w =
     (let (t, w1) = get_time_remaining X s True w
      in case solve X False t (masterproblem s) w1 of Inl e \<Rightarrow> Inl e
         | Inr (ignored, m1, w2) \<Rightarrow>
             (case get_total_cost_and_routes X False m1 w2 of Inl e \<Rightarrow> Inl e
              | Inr (best, m2, w3) \<Rightarrow> Inr (best, s\<lparr>masterproblem := m2\<rparr>, w3)))"

section \<open>Routes as node lists and as graphs (main.py)\<close>

text \<open>\<open>self.G.edges[i, j]["cost"][0]\<close>: the cost of the edge for vehicle type 0.\<close>

definition first_cost :: "network \<Rightarrow> node \<Rightarrow> node \<Rightarrow> py_error + real" where
  "first_cost G i j = (case edge_cost G (i, j) of None \<Rightarrow> Inl KeyError | Some cs \<Rightarrow> py_get cs 0)"

definition route_edge :: "network \<Rightarrow> node \<times> node \<Rightarrow> digraph \<times> real \<Rightarrow> py_error + (digraph \<times> real)" where
  "route_edge G e acc =
     (case first_cost G (fst e) (snd e) of Inl err \<Rightarrow> Inl err
      | Inr c \<Rightarrow> Inr (add_edge (fst e) (snd e) c (fst acc), snd acc + c))"

text \<open>The graph of one initial route \<open>r\<close>: an edge for every pair of \<open>zip(r[:-1], r[1:])\<close>.\<close>

definition route_digraph :: "network \<Rightarrow> nat \<Rightarrow> node list \<Rightarrow> py_error + digraph" where
  "route_digraph G route_id r =
     (case for_loop (zip (butlast r) (tl r)) (route_edge G) (DiGraph route_id, 0) of
        Inl e \<Rightarrow> Inl e
      | Inr (g, total_cost) \<Rightarrow> Inr (g\<lparr>cost := total_cost, vehicle_type := 0\<rparr>))"

text \<open>\<open>for v in r[1:-1]\<close>: the route is filed under each of its inner nodes.\<close>

definition file_route :: "digraph \<Rightarrow> node \<Rightarrow> (node \<rightharpoonup> digraph list) \<Rightarrow> (node \<rightharpoonup> digraph list)" where
  "file_route g v rwn = rwn(v \<mapsto> (case rwn v of None \<Rightarrow> [g] | Some gs \<Rightarrow> gs @ [g]))"

fun convert_loop ::
  "network \<Rightarrow> node list list \<Rightarrow> nat \<times> digraph list \<times> (node \<rightharpoonup> digraph list) \<Rightarrow>
   py_error + (nat \<times> digraph list \<times> (node \<rightharpoonup> digraph list))" where
  "convert_loop G [] acc = Inr acc"
| "convert_loop G (r # rs) (route_id, pool, rwn) =
     (case route_digraph G (route_id + 1) r of Inl e \<Rightarrow> Inl e
      | Inr g \<Rightarrow>
          convert_loop G rs
            (route_id + 1, pool @ [g], foldl (\<lambda>m v. file_route g v m) rwn (butlast (tl r))))"

text \<open>\<open>_convert_initial_routes_to_digraphs\<close>.\<close>

definition convert_initial_routes_to_digraphs :: "vrp \<Rightarrow> py_error + vrp" where
  "convert_initial_routes_to_digraphs s =
     (case convert_loop (vrp_G s) (initial_routes s) (0, [], Map.empty) of
        Inl e \<Rightarrow> Inl e
      | Inr (route_id, pool, rwn) \<Rightarrow> Inr (s\<lparr>routes_pool := pool, routes_with_node := rwn\<rparr>))"

text \<open>
  \<open>networkx.shortest_path(route, "Source", "Sink")\<close> belongs to a library. What the library
  promises is a shortest list of nodes that starts at the source, ends at the target and follows
  edges of the graph, and the exception \<open>NetworkXNoPath\<close> when there is none. The function is a
  parameter \<open>sp\<close> of the model; \<open>networkx_shortest_path sp g\<close> says that \<open>sp\<close> keeps this
  promise on the graph \<open>g\<close>.
\<close>

definition follows_edges :: "digraph \<Rightarrow> node list \<Rightarrow> bool" where
  "follows_edges g p = list_all (\<lambda>e. edges g e \<noteq> None) (zip (butlast p) (tl p))"

definition source_sink_path :: "digraph \<Rightarrow> node list \<Rightarrow> bool" where
  "source_sink_path g p = (p \<noteq> [] \<and> hd p = Source \<and> last p = Sink \<and> follows_edges g p)"

definition shortest_source_sink_path :: "digraph \<Rightarrow> node list \<Rightarrow> bool" where
  "shortest_source_sink_path g p =
     (source_sink_path g p \<and> (\<forall>q. source_sink_path g q \<longrightarrow> length p \<le> length q))"

definition networkx_shortest_path ::
  "(digraph \<Rightarrow> node \<Rightarrow> node \<Rightarrow> py_error + node list) \<Rightarrow> digraph \<Rightarrow> bool" where
  "networkx_shortest_path sp g =
     (case sp g Source Sink of
        Inr p \<Rightarrow> shortest_source_sink_path g p
      | Inl e \<Rightarrow> \<forall>q. \<not> source_sink_path g q)"

text \<open>\<open>_best_routes_as_node_lists\<close>, its first loop: the routes of the solution, numbered from
  1, as node lists, with their vehicle types. (The second loop appends the preassigned
  complete routes under the following numbers.)\<close>

fun node_lists_loop ::
  "(digraph \<Rightarrow> node \<Rightarrow> node \<Rightarrow> py_error + node list) \<Rightarrow> digraph list \<Rightarrow>
   nat \<times> (nat \<rightharpoonup> node list) \<times> (nat \<rightharpoonup> nat) \<Rightarrow>
   py_error + (nat \<times> (nat \<rightharpoonup> node list) \<times> (nat \<rightharpoonup> nat))" where
  "node_lists_loop sp [] acc = Inr acc"
| "node_lists_loop sp (route # rest) (route_id, best, types) =
     (case sp route Source Sink of Inl e \<Rightarrow> Inl e
      | Inr path \<Rightarrow>
          node_lists_loop sp rest
            (route_id + 1, best(route_id \<mapsto> path), types(route_id \<mapsto> vehicle_type route)))"

definition best_routes_as_node_lists ::
  "(digraph \<Rightarrow> node \<Rightarrow> node \<Rightarrow> py_error + node list) \<Rightarrow> digraph list \<Rightarrow>
   py_error + (nat \<times> (nat \<rightharpoonup> node list) \<times> (nat \<rightharpoonup> nat))" where
  "best_routes_as_node_lists sp best_routes_as_graphs =
     node_lists_loop sp best_routes_as_graphs (1, Map.empty, Map.empty)"

section \<open>Example data\<close>

text \<open>Collaborators without a state of their own, for the examples: the clock always shows
  \<open>now\<close>, the LP solver always returns \<open>sol\<close>, a pricing call is answered by \<open>price\<close>, the
  greedy pass finds nothing, and the hyper-heuristic, past its initialisation, always picks
  \<open>pick\<close>.\<close>

definition example_ext ::
  "real \<Rightarrow> lp_solution \<Rightarrow> (pricing_call \<Rightarrow> digraph list \<Rightarrow> digraph list \<times> bool \<times> digraph list) \<Rightarrow>
   string \<Rightarrow> unit ext" where
  "example_ext now sol price pick =
     \<lparr>time_now = (\<lambda>w. (now, w)),
      lp_solve = (\<lambda>m t w. (sol, w)),
      lp_resolve = (\<lambda>m w. (sol, w)),
      run_dive = (\<lambda>m w. (m, w)),
      subproblem_solve = (\<lambda>c pool w. (price c pool, w)),
      greedy_solve = (\<lambda>d v pool w. (([], False, pool), w)),
      hh_initialisation = (\<lambda>w. False),
      hh_set_initialisation = (\<lambda>b w. w),
      hh_performance_measure = (\<lambda>w. ''Weighted average''),
      hh_incr_n_exact = (\<lambda>w. w),
      hh_set_timeend = (\<lambda>t w. w),
      set_current_objective = (\<lambda>c w. w),
      set_initial_time = (\<lambda>w. w),
      current_performance = (\<lambda>c p f w. w),
      move_acceptance = (\<lambda>w. (True, w)),
      update_parameters = (\<lambda>w. w),
      pick_heurestic = (\<lambda>w. (pick, w)),
      store_info_heuristic = (\<lambda>w. w)\<rparr>"

text \<open>A solver answer with the given status and objective value, every variable at \<open>v\<close> and
  every dual value 0.\<close>

definition example_solution :: "lp_status \<Rightarrow> real option \<Rightarrow> real option \<Rightarrow> lp_solution" where
  "example_solution st obj v =
     \<lparr>sol_status = st, sol_objective = obj, sol_value = (\<lambda>x. v), sol_pi = (\<lambda>c. Some 0)\<rparr>"

text \<open>A network with two customers and an edge of cost 1 between any two nodes.\<close>

definition example_network :: network where
  "example_network =
     \<lparr>node_list = [Source, Num 1, Num 2, Sink],
      node_attr = (\<lambda>v. [''demand'' \<mapsto> 0, ''frequency'' \<mapsto> 1]),
      edge_cost = (\<lambda>e. Some [1])\<rparr>"

text \<open>The route Source, 1, 2, Sink as the graph number \<open>k\<close>, and a variable with value \<open>v\<close>.\<close>

definition example_route :: "nat \<Rightarrow> digraph" where
  "example_route k =
     \<lparr>name = k, nodes = [Source, Num 1, Num 2, Sink],
      edges = [(Source, Num 1) \<mapsto> 1, (Num 1, Num 2) \<mapsto> 1, (Num 2, Sink) \<mapsto> 1],
      cost = 3, vehicle_type = 0, heuristic = None\<rparr>"

definition example_variable :: "real option \<Rightarrow> lp_variable" where
  "example_variable v =
     \<lparr>lowBound = Some 0, upBound = Some 1, cat = LpInteger,
      expression = [(Visit (Num 1), 1), (Visit (Num 2), 1), (Objective, 3)], varValue = v\<rparr>"

text \<open>A master problem over that network, with the given pool and columns.\<close>

definition example_master :: "digraph list \<Rightarrow> (nat \<rightharpoonup> lp_variable) \<Rightarrow> master" where
  "example_master pool cols =
     \<lparr>mp_G = example_network, mp_routes = pool, drop_penalty = None, num_vehicles = [],
      periodic = None, solver = ''cbc'', y = cols, shadowed = [], drop_vars = [],
      dummy = Map.empty,
      dummy_bound = Map.empty,
      set_covering_constrs =
        [Num 1 \<mapsto> \<lparr>sense = LpConstraintGE, rhs = 1\<rparr>, Num 2 \<mapsto> \<lparr>sense = LpConstraintGE, rhs = 1\<rparr>],
      vehicle_bound_constrs = Map.empty, dropped_nodes = [], prob_status = NotSolved,
      prob_objective = None, prob_pi = (\<lambda>c. None)\<rparr>"

text \<open>A solver object as \<open>solve\<close> leaves it before the first iteration, with one vehicle type,
  the given configured strategy and time limit, and an empty pool.\<close>

definition example_vrp :: "string \<Rightarrow> real option \<Rightarrow> vrp" where
  "example_vrp strategy limit =
     \<lparr>vrp_G = example_network, time_windows = False, pickup_delivery = False,
      distribution_collection = False, masterproblem = example_master [] Map.empty, routes = [],
      time_limit = limit, pricing_strategy = strategy, dive = False, start_time = 0,
      greedy = False, max_iter = None, more_routes = True, iteration = 0, no_improvement = 0,
      lower_bound = [], vehicle_types = 1, initial_routes = [], preassignments = [],
      routes_pool = [],
      routes_with_node = Map.empty, produced_column = None, do_exact = 1000, calls = []\<rparr>"

text \<open>Collaborators whose pricing finds a route exactly when the parameter is 7.\<close>

definition example_ext_7 :: "unit ext" where
  "example_ext_7 = example_ext 0 (example_solution Optimal (Some 3) (Some 1))
             (\<lambda>c pool. ([example_route 5], call_parameter c = Some 7, pool)) ''BestPaths''"

text \<open>Collaborators whose pricing always returns two routes, numbered 5 and 6.\<close>

definition example_ext_10 :: "unit ext" where
  "example_ext_10 = example_ext 0 (example_solution Optimal (Some 3) (Some 1))
             (\<lambda>c pool. ([example_route 5, example_route 6], True, pool)) ''Exact''"

text \<open>Collaborators whose pricing never finds a route; the hyper-heuristic picks BestPaths.\<close>

definition example_ext_fail :: "unit ext" where
  "example_ext_fail = example_ext 0 (example_solution Optimal (Some 3) (Some 1))
             (\<lambda>c pool. ([], False, pool)) ''BestPaths''"

text \<open>Collaborators whose pricing always finds the route 5; the hyper-heuristic picks Exact.\<close>

definition example_ext_found :: "unit ext" where
  "example_ext_found = example_ext 0 (example_solution Optimal (Some 3) (Some 1))
             (\<lambda>c pool. ([example_route 5], True, pool)) ''Exact''"

text \<open>A solver object after \<open>i\<close> iterations that all had the relaxed objective 3, with \<open>do_exact\<close> at \<open>k\<close>
  and the counter of iterations without improvement at \<open>c\<close>.\<close>

definition example_stalled :: "string \<Rightarrow> nat \<Rightarrow> nat \<Rightarrow> nat \<Rightarrow> vrp" where
  "example_stalled strategy k i c =
     (example_vrp strategy None)
       \<lparr>do_exact := k, iteration := i, no_improvement := c, lower_bound := replicate i (Some 3)\<rparr>"

text \<open>A solver object whose master problem already holds a column under the name 6, with the
  value 1.\<close>

definition example_priced :: vrp where
  "example_priced =
     (example_vrp ''Exact'' None)
       \<lparr>masterproblem := example_master [] [6 \<mapsto> example_variable (Some 1)]\<rparr>"

text \<open>A solver object as \<open>solve\<close> has it when it calls \<open>_pre_solve\<close>, the flag set, with the
  route through both customers preassigned.\<close>

definition example_locked :: vrp where
  "example_locked =
     (example_vrp ''BestPaths'' None)\<lparr>preassignments := [[Source, Num 1, Num 2, Sink]]\<rparr>"

text \<open>A solver object with the given initial routes.\<close>

definition example_initial :: "node list list \<Rightarrow> vrp" where
  "example_initial rs = (example_vrp ''Exact'' None)\<lparr>initial_routes := rs\<rparr>"

text \<open>Two stand-ins for \<open>networkx.shortest_path\<close>: one returns the nodes of the graph in
  the order in which they were added, the other always the path through node 1.\<close>

definition nodes_in_order :: "digraph \<Rightarrow> node \<Rightarrow> node \<Rightarrow> py_error + node list" where
  "nodes_in_order g a b = Inr (nodes g)"

definition through_node_1 :: "digraph \<Rightarrow> node \<Rightarrow> node \<Rightarrow> py_error + node list" where
  "through_node_1 g a b = Inr [Source, Num 1, Sink]"

section \<open>Auxiliary notions for the proofs\<close>

text \<open>\<open>master_kept m m'\<close>: the two master problems differ at most in the pool of routes.
  \<open>config_kept s s'\<close>: the two states agree on the configuration and on the counters of the
  loop.\<close>

definition master_kept :: "master \<Rightarrow> master \<Rightarrow> bool" where
  "master_kept m m' =
     (mp_G m' = mp_G m \<and> drop_penalty m' = drop_penalty m \<and> num_vehicles m' = num_vehicles m
      \<and> periodic m' = periodic m \<and> solver m' = solver m \<and> y m' = y m
      \<and> shadowed m' = shadowed m
      \<and> drop_vars m' = drop_vars m \<and> dummy m' = dummy m \<and> dummy_bound m' = dummy_bound m
      \<and> set_covering_constrs m' = set_covering_constrs m
      \<and> vehicle_bound_constrs m' = vehicle_bound_constrs m
      \<and> dropped_nodes m' = dropped_nodes m \<and> prob_status m' = prob_status m
      \<and> prob_objective m' = prob_objective m \<and> prob_pi m' = prob_pi m)"

definition config_kept :: "vrp \<Rightarrow> vrp \<Rightarrow> bool" where
  "config_kept s s' =
     (vrp_G s' = vrp_G s \<and> time_windows s' = time_windows s
      \<and> pickup_delivery s' = pickup_delivery s
      \<and> distribution_collection s' = distribution_collection s
      \<and> time_limit s' = time_limit s \<and> pricing_strategy s' = pricing_strategy s
      \<and> dive s' = dive s \<and> start_time s' = start_time s \<and> greedy s' = greedy s
      \<and> max_iter s' = max_iter s \<and> iteration s' = iteration s
      \<and> no_improvement s' = no_improvement s \<and> lower_bound s' = lower_bound s
      \<and> vehicle_types s' = vehicle_types s \<and> initial_routes s' = initial_routes s
      \<and> routes_with_node s' = routes_with_node s \<and> do_exact s' = do_exact s)"

text \<open>The columns of the routes named \<open>k\<close>, in the order in which they were added: those
  that have lost their entry in \<open>y\<close>, then the one that \<open>y\<close> holds.\<close>

definition columns_named :: "master \<Rightarrow> nat \<Rightarrow> lp_variable list" where
  "columns_named m k =
     map snd (filter (\<lambda>e. fst e = k) (shadowed m))
       @ (case y m k of None \<Rightarrow> [] | Some v \<Rightarrow> [v])"

text \<open>The columns of the routes with a name in the list \<open>ks\<close>.\<close>

definition columns_among :: "master \<Rightarrow> nat list \<Rightarrow> lp_variable list" where
  "columns_among m ks = concat (map (columns_named m) ks)"

text \<open>The non-exact attempt of a strategy, or no attempt for any other name.\<close>

definition non_exact_attempt ::
  "'w ext \<Rightarrow> string \<Rightarrow> nat \<Rightarrow> duals \<Rightarrow> vrp \<Rightarrow> 'w \<Rightarrow> bool \<times> vrp \<times> 'w" where
  "non_exact_attempt X strategy vehicle d s w =
     (if strategy = ''BestPaths'' then attempt_solve_best_paths X vehicle d s w
      else if strategy = ''BestEdges1'' then attempt_solve_BestEdges1 X vehicle d s w
      else if strategy = ''BestEdges2'' then attempt_solve_BestEdges2 X vehicle d s w
      else (False, s, w))"

text \<open>The pairs of neighbours of a list, \<open>zip(xs[:-1], xs[1:])\<close>.\<close>

definition pairs :: "'a list \<Rightarrow> ('a \<times> 'a) list" where
  "pairs xs = zip (butlast xs) (tl xs)"

text \<open>Dual values for the examples.\<close>

definition example_duals :: duals where
  "example_duals = \<lparr>node_duals = Map.empty, upper_bound_vehicles = None\<rparr>"

section \<open>The time that remains\<close>

text \<open>
  C4, as the program has it. Let the clock show \<open>now\<close>, so that \<open>now - start_time\<close> has
  elapsed. Without a time limit the result is \<open>None\<close>; the same holds for the time limit 0,
  which \<open>if self._time_limit\<close> takes for no limit. For every other limit \<open>lim\<close>: a MIP request
  gets the larger of 5 and the remaining time, hence at least 5; any other request gets the
  remaining time when that is positive, and exactly 0 once the elapsed time has reached the
  limit.
\<close>

theorem get_time_remaining_by_limit:
  assumes "time_now X w = (now, w1)"
  shows "(time_limit s = None \<longrightarrow> fst (get_time_remaining X s mip w) = None)
       \<and> (time_limit s = Some 0 \<longrightarrow> fst (get_time_remaining X s mip w) = None)
       \<and> (\<forall>lim. time_limit s = Some lim \<and> lim \<noteq> 0 \<longrightarrow>
            fst (get_time_remaining X s True w) = Some (max 5 (lim - (now - start_time s)))
          \<and> (\<exists>t. fst (get_time_remaining X s True w) = Some t \<and> 5 \<le> t)
          \<and> (0 < lim - (now - start_time s) \<longrightarrow>
               fst (get_time_remaining X s False w) = Some (lim - (now - start_time s)))
          \<and> (lim \<le> now - start_time s \<longrightarrow> fst (get_time_remaining X s False w) = Some 0))"
  using assms by (auto simp add: get_time_remaining_def truthy_def)

text \<open>With a limit of 10 seconds and 12 seconds elapsed, a MIP request gets 5 and any other
  request gets 0.\<close>

theorem get_time_remaining_by_limit_witness:
  "time_now (example_ext 12 (example_solution Optimal None None) (\<lambda>c pool. ([], False, pool)) ''Exact'') () = (12, ())
   \<and> time_limit (example_vrp ''Exact'' (Some 10)) = Some 10 \<and> (10::real) \<noteq> 0
   \<and> (10::real) \<le> 12 - start_time (example_vrp ''Exact'' (Some 10))
   \<and> fst (get_time_remaining (example_ext 12 (example_solution Optimal None None) (\<lambda>c pool. ([], False, pool)) ''Exact'') (example_vrp ''Exact'' (Some 10)) True ()) = Some 5
   \<and> fst (get_time_remaining (example_ext 12 (example_solution Optimal None None) (\<lambda>c pool. ([], False, pool)) ''Exact'') (example_vrp ''Exact'' (Some 10)) False ()) = Some 0"
proof -
  have h: "time_now (example_ext 12 (example_solution Optimal None None) (\<lambda>c pool. ([], False, pool)) ''Exact'') () = (12, ())"
    by (simp add: example_ext_def)
  show ?thesis
    using h get_time_remaining_by_limit [OF h, of "example_vrp ''Exact'' (Some 10)" False]
    by (simp add: example_vrp_def)
qed

text \<open>C4 as stated fails for the time limit 0: one second has elapsed, which is not less than
  the limit, and the result is \<open>None\<close>, neither 0 nor, for a MIP request, at least 5.\<close>

theorem get_time_remaining_zero_limit:
  "time_limit (example_vrp ''Exact'' (Some 0)) = Some 0
   \<and> (0::real) \<le> fst (time_now (example_ext 1 (example_solution Optimal None None) (\<lambda>c pool. ([], False, pool)) ''Exact'') ()) - start_time (example_vrp ''Exact'' (Some 0))
   \<and> fst (get_time_remaining (example_ext 1 (example_solution Optimal None None) (\<lambda>c pool. ([], False, pool)) ''Exact'') (example_vrp ''Exact'' (Some 0)) False ()) = None
   \<and> fst (get_time_remaining (example_ext 1 (example_solution Optimal None None) (\<lambda>c pool. ([], False, pool)) ''Exact'') (example_vrp ''Exact'' (Some 0)) True ()) = None"
  by (simp add: get_time_remaining_def truthy_def example_vrp_def example_ext_def)

section \<open>The knapsack bound\<close>

text \<open>The example of the specification: three items of weights 3, 4 and 5 and capacity 7
  give 2.\<close>

lemma knapsack_example: "knapsack [3, 4, 5] 7 = Inr 2 \<and> max_items [3, 4, 5] 7 = 2"
  by (simp add: knapsack_def knapsack_cell_def py_get_def py_set_def py_index_def upt_rec
      max_items_def)

text \<open>
  C9 does not hold of the program for a single item. For the first item the row above is read
  as \<open>sol[-1]\<close>, which for a table of one row is the row being filled: with one item of
  weight 2 and capacity 4 the item is counted twice, while at most one item can be selected.
\<close>

theorem knapsack_single_item: "knapsack [2] 4 = Inr 2 \<and> max_items [2] 4 = 1"
  by (simp add: knapsack_def knapsack_cell_def py_get_def py_set_def py_index_def upt_rec
      max_items_def)

text \<open>Without items the last row \<open>sol[n - 1]\<close> does not exist.\<close>

lemma knapsack_no_item: "knapsack [] 4 = Inl IndexError"
  by (simp add: knapsack_def py_get_def py_index_def)

section \<open>Solving the master problem\<close>

lemma LpStatus_Optimal: "(LpStatus st = ''Optimal'') = (st = Optimal)"
  by (cases st) simp_all

lemma log_selected_error: "log_selected m rs = Inl e \<Longrightarrow> e = KeyError \<or> e = TypeError"
  by (induction rs) (auto simp add: y_value_def split: sum.splits option.splits)

lemma get_duals_error: "get_duals m = Inl e \<Longrightarrow> e = KeyError"
  by (auto simp add: get_duals_def Let_def split: if_splits)

text \<open>
  C5, as the program has it. Let \<open>m1\<close> be the master problem as the solver leaves it. Then
  \<open>solve\<close> raises the exception \<open>problem\<close> followed by the name of the status exactly when the
  status is not Optimal, whether the solve is relaxed or not.
\<close>

theorem solve_raises_iff_not_optimal:
  assumes "solve_lp X relax t m w = (m1, w1)"
  shows "(solve X relax t m w = Inl (Exception (''problem '' @ LpStatus (prob_status m1))))
         = (prob_status m1 \<noteq> Optimal)"
proof (cases "prob_status m1 = Optimal")
  case True
  have "solve X relax t m w \<noteq> Inl (Exception msg)" for msg
    using assms True
    by (auto simp add: solve_def split: sum.splits if_splits
        dest: log_selected_error get_duals_error)
  with True show ?thesis by simp
next
  case False
  with assms show ?thesis
    by (simp add: solve_def LpStatus_Optimal)
qed

text \<open>A relaxed solve that the solver ends with the status Unbounded.\<close>

theorem solve_raises_iff_not_optimal_witness:
  "solve_lp (example_ext 0 (example_solution Unbounded None None) (\<lambda>c pool. ([], False, pool)) ''Exact'') True None (example_master [] Map.empty) ()
     = (store_solution (example_solution Unbounded None None)
          (set_variable_types True (example_master [] Map.empty)), ())
   \<and> solve (example_ext 0 (example_solution Unbounded None None) (\<lambda>c pool. ([], False, pool)) ''Exact'') True None (example_master [] Map.empty) () = Inl (Exception ''problem Unbounded'')"
proof -
  have h: "solve_lp (example_ext 0 (example_solution Unbounded None None) (\<lambda>c pool. ([], False, pool)) ''Exact'') True None (example_master [] Map.empty) ()
     = (store_solution (example_solution Unbounded None None)
          (set_variable_types True (example_master [] Map.empty)), ())"
    by (simp add: solve_lp_def example_ext_def set_variable_types_def example_master_def)
  show ?thesis
    using h solve_raises_iff_not_optimal [OF h]
    by (simp add: store_solution_def example_solution_def)
qed

text \<open>C5 as stated fails for the integer solve: when the solver ends it with the status
  Infeasible, \<open>solve\<close> with \<open>relax=False\<close> raises, and so does the step of
  \<open>VehicleRoutingProblem.solve\<close> that calls it.\<close>

theorem integer_solve_raises:
  "solve (example_ext 0 (example_solution Infeasible None None) (\<lambda>c pool. ([], False, pool)) ''Exact'') False None (example_master [] Map.empty) () = Inl (Exception ''problem Infeasible'')
   \<and> solve_as_mip (example_ext 0 (example_solution Infeasible None None) (\<lambda>c pool. ([], False, pool)) ''Exact'') (example_vrp ''Exact'' None) () = Inl (Exception ''problem Infeasible'')"
  by (simp add: solve_as_mip_def get_time_remaining_def truthy_def example_vrp_def solve_def
      solve_lp_def example_ext_def set_variable_types_def example_master_def store_solution_def
      example_solution_def)

text \<open>In general: whenever the integer solve of the step ``Solve as MIP'' ends with a status
  other than Optimal, the step raises the exception of \<open>solve\<close>; no routes are read off.\<close>

lemma solve_as_mip_raises:
  assumes "get_time_remaining X s True w = (t, w1)"
    and "solve_lp X False t (masterproblem s) w1 = (m1, w2)"
    and "prob_status m1 \<noteq> Optimal"
  shows "solve_as_mip X s w = Inl (Exception (''problem '' @ LpStatus (prob_status m1)))"
  using assms
  by (simp add: solve_as_mip_def solve_def LpStatus_Optimal)

section \<open>The routes of the solution\<close>

lemma positive_value_y_value:
  "y_value m r = Inr val \<Longrightarrow> (val \<noteq> None \<and> the val > 0) = positive_value m r"
  by (auto simp add: y_value_def positive_value_def split: option.splits)

lemma best_routes_of_filter:
  "best_routes_of m rs = Inr best \<Longrightarrow> best = filter (positive_value m) rs"
proof (induction rs arbitrary: best)
  case Nil
  then show ?case by simp
next
  case (Cons r rs)
  from Cons.prems obtain val best' where
    v: "y_value m r = Inr val" and b: "best_routes_of m rs = Inr best'"
    and e: "best = (if val \<noteq> None \<and> the val > 0 then r # best' else best')"
    by (auto split: sum.splits)
  from Cons.IH [OF b] e positive_value_y_value [OF v] show ?case
    by simp
qed

text \<open>
  C6, as the program has it. When \<open>get_total_cost_and_routes\<close> returns, the routes it returns
  are exactly the routes of the pool, in the order of the pool, whose variable has a value
  that is not \<open>None\<close> and is greater than 0.
\<close>

theorem get_total_cost_and_routes_positive:
  assumes "get_total_cost_and_routes X relax m w = Inr ((total_cost, best_routes), m', w')"
  shows "best_routes = filter (positive_value m) (mp_routes m)"
  using assms
  by (auto simp add: get_total_cost_and_routes_def Let_def best_routes_of_filter
      split: sum.splits prod.splits)

text \<open>Two routes with the values 1 and 0: the first is returned.\<close>

theorem get_total_cost_and_routes_positive_witness:
  "get_total_cost_and_routes (example_ext 0 (example_solution Optimal (Some 3) (Some 1)) (\<lambda>c pool. ([], False, pool)) ''Exact'') False (example_master [example_route 1, example_route 2]
        [1 \<mapsto> example_variable (Some 1), 2 \<mapsto> example_variable (Some 0)]) ()
    = Inr ((3, [example_route 1]),
           store_solution (example_solution Optimal (Some 3) (Some 1)) (example_master [example_route 1, example_route 2]
        [1 \<mapsto> example_variable (Some 1), 2 \<mapsto> example_variable (Some 0)]), ())
   \<and> [example_route 1] = filter (positive_value (example_master [example_route 1, example_route 2]
        [1 \<mapsto> example_variable (Some 1), 2 \<mapsto> example_variable (Some 0)])) [example_route 1, example_route 2]"
proof -
  have h: "get_total_cost_and_routes (example_ext 0 (example_solution Optimal (Some 3) (Some 1)) (\<lambda>c pool. ([], False, pool)) ''Exact'') False (example_master [example_route 1, example_route 2]
        [1 \<mapsto> example_variable (Some 1), 2 \<mapsto> example_variable (Some 0)]) ()
    = Inr ((3, [example_route 1]),
           store_solution (example_solution Optimal (Some 3) (Some 1)) (example_master [example_route 1, example_route 2]
        [1 \<mapsto> example_variable (Some 1), 2 \<mapsto> example_variable (Some 0)]), ())"
    by (simp add: get_total_cost_and_routes_def y_value_def example_master_def example_route_def
        example_variable_def truthy_def example_ext_def store_solution_def example_solution_def)
  show ?thesis
    using h get_total_cost_and_routes_positive [OF h]
    by (simp add: example_master_def)
qed

text \<open>C6 as stated fails for a value between 0 and 0.5: the route whose variable has the
  value 0.3 is returned.\<close>

theorem get_total_cost_and_routes_below_threshold:
  "(case get_total_cost_and_routes (example_ext 0 (example_solution Optimal (Some 3) (Some 0.3)) (\<lambda>c pool. ([], False, pool)) ''Exact'') True
           (example_master [example_route 1] [1 \<mapsto> example_variable (Some 0.3)]) () of
      Inl e \<Rightarrow> False
    | Inr ((total_cost, best_routes), m, w) \<Rightarrow> best_routes = [example_route 1])
   \<and> y_value (example_master [example_route 1] [1 \<mapsto> example_variable (Some 0.3)])
         (example_route 1) = Inr (Some 0.3)
   \<and> (0.3::real) \<le> 0.5"
  by (simp add: get_total_cost_and_routes_def y_value_def example_master_def example_route_def
      example_variable_def truthy_def example_ext_def store_solution_def example_solution_def)

section \<open>Pricing attempts\<close>


lemma master_kept_refl: "master_kept m m"
  by (simp add: master_kept_def)

lemma master_kept_trans: "master_kept a b \<Longrightarrow> master_kept b c \<Longrightarrow> master_kept a c"
  by (simp add: master_kept_def)

lemma config_kept_refl: "config_kept s s"
  by (simp add: config_kept_def)

lemma config_kept_trans: "config_kept a b \<Longrightarrow> config_kept b c \<Longrightarrow> config_kept a c"
  by (simp add: config_kept_def)

lemma call_subproblem_kept:
  assumes "call_subproblem X strategy parameter vehicle d s w = (s1, w1)"
  shows "config_kept s s1 \<and> master_kept (masterproblem s) (masterproblem s1)
         \<and> produced_column s1 = produced_column s"
  using assms
  by (auto simp add: call_subproblem_def set_pool_def Let_def config_kept_def master_kept_def
      split: prod.splits)

lemma call_subproblem_calls:
  assumes "call_subproblem X strategy parameter vehicle d s w = (s1, w1)"
  shows "\<exists>c. calls s1 = calls s @ [(c, more_routes s1)] \<and> call_strategy c = strategy
             \<and> call_parameter c = parameter \<and> call_vehicle c = vehicle \<and> call_duals c = d"
  using assms
  by (auto simp add: call_subproblem_def set_pool_def Let_def split: prod.splits)

lemma sweep_kept:
  assumes "sweep X strategy vehicle d pc ps s w = (produced, s', w')"
  shows "config_kept s s' \<and> master_kept (masterproblem s) (masterproblem s')
         \<and> produced_column s' = produced_column s"
  using assms
proof (induction ps arbitrary: s w pc)
  case Nil
  then show ?case by (auto simp add: config_kept_def master_kept_def)
next
  case (Cons p ps)
  obtain s1 w1 where c: "call_subproblem X strategy (Some p) vehicle d s w = (s1, w1)"
    by (cases "call_subproblem X strategy (Some p) vehicle d s w")
  note k = call_subproblem_kept [OF c]
  show ?case
  proof (cases "more_routes s1")
    case True
    with Cons.prems c have "s' = s1" by simp
    with k show ?thesis by simp
  next
    case False
    with Cons.prems c have "sweep X strategy vehicle d False ps s1 w1 = (produced, s', w')"
      by simp
    from Cons.IH [OF this] k show ?thesis
      by (auto intro: config_kept_trans master_kept_trans)
  qed
qed

lemma sweep_more_routes:
  assumes "sweep X strategy vehicle d pc ps s w = (produced, s', w')"
  shows "more_routes s'"
  using assms
proof (induction ps arbitrary: s w pc)
  case Nil
  then show ?case by auto
next
  case (Cons p ps)
  obtain s1 w1 where c: "call_subproblem X strategy (Some p) vehicle d s w = (s1, w1)"
    by (cases "call_subproblem X strategy (Some p) vehicle d s w")
  show ?case
  proof (cases "more_routes s1")
    case True
    with Cons.prems c show ?thesis by simp
  next
    case False
    with Cons.prems c have "sweep X strategy vehicle d False ps s1 w1 = (produced, s', w')"
      by simp
    from Cons.IH [OF this] show ?thesis .
  qed
qed


lemma sweep_calls:
  assumes "sweep X strategy vehicle d False ps s w = (produced, s', w')"
  shows "\<exists>cs. calls s' = calls s @ cs
           \<and> map (\<lambda>c. (call_strategy (fst c), call_parameter (fst c), call_vehicle (fst c))) cs
               = map (\<lambda>p. (strategy, Some p, vehicle)) (take (length cs) ps)
           \<and> (\<forall>c \<in> set (butlast cs). \<not> snd c)
           \<and> (produced \<longrightarrow> cs \<noteq> [] \<and> snd (last cs))
           \<and> (\<not> produced \<longrightarrow> length cs = length ps \<and> (\<forall>c \<in> set cs. \<not> snd c))"
  using assms
proof (induction ps arbitrary: s w)
  case Nil
  then show ?case by auto
next
  case (Cons p ps)
  obtain s1 w1 where c: "call_subproblem X strategy (Some p) vehicle d s w = (s1, w1)"
    by (cases "call_subproblem X strategy (Some p) vehicle d s w")
  from call_subproblem_calls [OF c] obtain c1 where
    c1: "calls s1 = calls s @ [(c1, more_routes s1)]" "call_strategy c1 = strategy"
        "call_parameter c1 = Some p" "call_vehicle c1 = vehicle"
    by blast
  show ?case
  proof (cases "more_routes s1")
    case True
    with Cons.prems c have "produced" "s' = s1" by simp_all
    with c1 True show ?thesis
      by (intro exI [of _ "[(c1, True)]"]) simp
  next
    case False
    with Cons.prems c have r: "sweep X strategy vehicle d False ps s1 w1 = (produced, s', w')"
      by simp
    from Cons.IH [OF r] obtain cs where
      cs: "calls s' = calls s1 @ cs"
          "map (\<lambda>c. (call_strategy (fst c), call_parameter (fst c), call_vehicle (fst c))) cs
               = map (\<lambda>p. (strategy, Some p, vehicle)) (take (length cs) ps)"
          "\<forall>c \<in> set (butlast cs). \<not> snd c"
          "produced \<longrightarrow> cs \<noteq> [] \<and> snd (last cs)"
          "\<not> produced \<longrightarrow> length cs = length ps \<and> (\<forall>c \<in> set cs. \<not> snd c)"
      by blast
    show ?thesis
    proof (intro exI [of _ "(c1, False) # cs"] conjI)
      show "calls s' = calls s @ (c1, False) # cs"
        using cs(1) c1(1) False by simp
      show "map (\<lambda>c. (call_strategy (fst c), call_parameter (fst c), call_vehicle (fst c)))
              ((c1, False) # cs)
            = map (\<lambda>p. (strategy, Some p, vehicle)) (take (length ((c1, False) # cs)) (p # ps))"
        using cs(2) c1 by simp
      show "\<forall>c \<in> set (butlast ((c1, False) # cs)). \<not> snd c"
        using cs(3) by (auto dest: in_set_butlastD)
      show "produced \<longrightarrow> (c1, False) # cs \<noteq> [] \<and> snd (last ((c1, False) # cs))"
        using cs(4) by simp
      show "\<not> produced \<longrightarrow> length ((c1, False) # cs) = length (p # ps)
              \<and> (\<forall>c \<in> set ((c1, False) # cs). \<not> snd c)"
        using cs(5) by simp
    qed
  qed
qed

lemma sweep_summary:
  assumes "sweep X strategy vehicle d False ps s w = (produced, s', w')" and "ps \<noteq> []"
  shows "\<exists>cs. calls s' = calls s @ cs \<and> cs \<noteq> []
           \<and> (\<forall>c \<in> set cs. call_strategy (fst c) = strategy)
           \<and> (\<forall>c \<in> set (butlast cs). \<not> snd c)
           \<and> snd (last cs) = produced \<and> more_routes s'"
proof -
  from sweep_calls [OF assms(1)] obtain cs where
    cs: "calls s' = calls s @ cs"
        "map (\<lambda>c. (call_strategy (fst c), call_parameter (fst c), call_vehicle (fst c))) cs
             = map (\<lambda>p. (strategy, Some p, vehicle)) (take (length cs) ps)"
        "\<forall>c \<in> set (butlast cs). \<not> snd c"
        "produced \<longrightarrow> cs \<noteq> [] \<and> snd (last cs)"
        "\<not> produced \<longrightarrow> length cs = length ps \<and> (\<forall>c \<in> set cs. \<not> snd c)"
    by blast
  have ne: "cs \<noteq> []"
    using cs(4) cs(5) assms(2) by (cases produced) auto
  have st: "call_strategy (fst c) = strategy" if "c \<in> set cs" for c
  proof -
    from that have "(call_strategy (fst c), call_parameter (fst c), call_vehicle (fst c))
        \<in> set (map (\<lambda>c. (call_strategy (fst c), call_parameter (fst c), call_vehicle (fst c))) cs)"
      by (simp add: image_iff) blast
    with cs(2) show ?thesis by auto
  qed
  have la: "snd (last cs) = produced"
    using cs(4) cs(5) ne by (cases produced) auto
  from cs(1) ne st cs(3) la sweep_more_routes [OF assms(1)] show ?thesis
    by blast
qed

lemma attempt_solve_Exact_summary:
  assumes "attempt_solve_Exact X vehicle d s w = (produced, s', w')"
  shows "\<exists>c. calls s' = calls s @ [(c, produced)] \<and> call_strategy c = ''Exact''
             \<and> call_parameter c = None \<and> call_vehicle c = vehicle
             \<and> more_routes s' = produced"
proof -
  obtain s1 w1 where c: "call_subproblem X ''Exact'' None vehicle d s w = (s1, w1)"
    by (cases "call_subproblem X ''Exact'' None vehicle d s w")
  with assms have "s' = s1 \<and> produced = more_routes s1"
    by (auto simp add: attempt_solve_Exact_def)
  with call_subproblem_calls [OF c] show ?thesis by auto
qed

lemma attempt_solve_Exact_kept:
  assumes "attempt_solve_Exact X vehicle d s w = (produced, s', w')"
  shows "config_kept s s' \<and> master_kept (masterproblem s) (masterproblem s')
         \<and> produced_column s' = produced_column s"
proof -
  obtain s1 w1 where c: "call_subproblem X ''Exact'' None vehicle d s w = (s1, w1)"
    by (cases "call_subproblem X ''Exact'' None vehicle d s w")
  with assms have "s' = s1"
    by (auto simp add: attempt_solve_Exact_def)
  with call_subproblem_kept [OF c] show ?thesis by simp
qed

lemma non_exact_attempt_kept:
  assumes "non_exact_attempt X strategy vehicle d s w = (produced, s', w')"
  shows "config_kept s s' \<and> master_kept (masterproblem s) (masterproblem s')
         \<and> produced_column s' = produced_column s"
proof -
  have "(\<exists>ps. sweep X strategy vehicle d False ps s w = (produced, s', w')) \<or> s' = s"
    using assms
    by (auto simp add: non_exact_attempt_def attempt_solve_best_paths_def
        attempt_solve_BestEdges1_def attempt_solve_BestEdges2_def
        simp del: sweep.simps split: if_splits)
  then show ?thesis
    by (auto simp add: config_kept_refl master_kept_refl dest: sweep_kept)
qed

lemma non_exact_attempt_summary:
  assumes "non_exact_attempt X strategy vehicle d s w = (produced, s', w')"
  shows "(strategy \<in> {''BestPaths'', ''BestEdges1'', ''BestEdges2''}
            \<and> (\<exists>cs. calls s' = calls s @ cs \<and> cs \<noteq> []
                 \<and> (\<forall>c \<in> set cs. call_strategy (fst c) = strategy)
                 \<and> (\<forall>c \<in> set (butlast cs). \<not> snd c)
                 \<and> snd (last cs) = produced \<and> more_routes s'))
         \<or> (strategy \<notin> {''BestPaths'', ''BestEdges1'', ''BestEdges2''}
            \<and> \<not> produced \<and> s' = s \<and> w' = w)"
proof -
  consider (bp) "strategy = ''BestPaths''" | (be1) "strategy = ''BestEdges1''"
    | (be2) "strategy = ''BestEdges2''"
    | (other) "strategy \<notin> {''BestPaths'', ''BestEdges1'', ''BestEdges2''}"
    by auto
  then show ?thesis
  proof cases
    case bp
    with assms have "sweep X strategy vehicle d False [3, 5, 7, 9] s w = (produced, s', w')"
      by (simp add: non_exact_attempt_def attempt_solve_best_paths_def)
    from sweep_summary [OF this] bp show ?thesis by simp
  next
    case be1
    with assms have "sweep X strategy vehicle d False [0.3, 0.5, 0.7, 0.9] s w = (produced, s', w')"
      by (simp add: non_exact_attempt_def attempt_solve_BestEdges1_def)
    from sweep_summary [OF this] be1 show ?thesis by simp
  next
    case be2
    with assms have "sweep X strategy vehicle d False [0.1, 0.2, 0.3] s w = (produced, s', w')"
      by (simp add: non_exact_attempt_def attempt_solve_BestEdges2_def)
    from sweep_summary [OF this] be2 show ?thesis by simp
  next
    case other
    with assms show ?thesis
      by (auto simp add: non_exact_attempt_def)
  qed
qed

lemma solve_subproblem_with_heuristic_unfold:
  "solve_subproblem_with_heuristic X strategy vehicle d s w =
     (if pricing_strategy s = ''Hyper'' then
        (if strategy = ''Exact'' then attempt_solve_Exact X vehicle d s (hh_incr_n_exact X w)
         else non_exact_attempt X strategy vehicle d s w)
      else
        (let (produced, s1, w1) = non_exact_attempt X strategy vehicle d s w
         in if strategy = ''Exact'' \<or> \<not> produced then attempt_solve_Exact X vehicle d s1 w1
            else (produced, s1, w1)))"
  by (simp add: solve_subproblem_with_heuristic_def non_exact_attempt_def)


lemma solve_subproblem_with_heuristic_kept:
  assumes "solve_subproblem_with_heuristic X strategy vehicle d s w = (produced, s', w')"
  shows "config_kept s s' \<and> master_kept (masterproblem s) (masterproblem s')
         \<and> produced_column s' = produced_column s"
proof (cases "pricing_strategy s = ''Hyper''")
  case True
  with assms show ?thesis
    by (auto simp add: solve_subproblem_with_heuristic_unfold split: if_splits
        dest: attempt_solve_Exact_kept non_exact_attempt_kept)
next
  case False
  obtain p1 s1 w1 where n: "non_exact_attempt X strategy vehicle d s w = (p1, s1, w1)"
    by (cases "non_exact_attempt X strategy vehicle d s w")
  note k1 = non_exact_attempt_kept [OF n]
  show ?thesis
  proof (cases "strategy = ''Exact'' \<or> \<not> p1")
    case True
    with assms False n have "attempt_solve_Exact X vehicle d s1 w1 = (produced, s', w')"
      by (simp add: solve_subproblem_with_heuristic_unfold)
    from attempt_solve_Exact_kept [OF this] k1 show ?thesis
      by (auto intro: config_kept_trans master_kept_trans)
  next
    case stop: False
    with assms False n have "s' = s1"
      by (simp add: solve_subproblem_with_heuristic_unfold)
    with k1 show ?thesis by simp
  qed
qed

lemma old_approach_calls:
  assumes "solve_subproblem_with_heuristic X strategy vehicle d s w = (produced, s', w')"
    and "pricing_strategy s \<noteq> ''Hyper''"
  shows "\<exists>cs. calls s' = calls s @ cs \<and> cs \<noteq> []
           \<and> (\<forall>c \<in> set (butlast cs). \<not> snd c \<and> call_strategy (fst c) \<noteq> ''Exact'')
           \<and> snd (last cs) = produced \<and> more_routes s' = produced
           \<and> (call_strategy (fst (last cs)) \<noteq> ''Exact'' \<longrightarrow> produced)"
proof -
  obtain p1 s1 w1 where n: "non_exact_attempt X strategy vehicle d s w = (p1, s1, w1)"
    by (cases "non_exact_attempt X strategy vehicle d s w")
  from non_exact_attempt_summary [OF n] consider
    (swept) cs where "strategy \<in> {''BestPaths'', ''BestEdges1'', ''BestEdges2''}"
      "calls s1 = calls s @ cs" "cs \<noteq> []" "\<forall>c \<in> set cs. call_strategy (fst c) = strategy"
      "\<forall>c \<in> set (butlast cs). \<not> snd c" "snd (last cs) = p1" "more_routes s1"
    | (none) "strategy \<notin> {''BestPaths'', ''BestEdges1'', ''BestEdges2''}" "\<not> p1" "s1 = s" "w1 = w"
    by blast
  then show ?thesis
  proof cases
    case swept
    from swept(1) have ne: "strategy \<noteq> ''Exact''" by auto
    show ?thesis
    proof (cases p1)
      case True
      with assms n ne have e: "produced" "s' = s1"
        by (simp_all add: solve_subproblem_with_heuristic_unfold)
      show ?thesis
      proof (intro exI [of _ cs] conjI)
        show "calls s' = calls s @ cs" using swept(2) e by simp
        show "cs \<noteq> []" by (rule swept(3))
        show "\<forall>c \<in> set (butlast cs). \<not> snd c \<and> call_strategy (fst c) \<noteq> ''Exact''"
          using swept(4) swept(5) ne by (auto dest: in_set_butlastD)
        show "snd (last cs) = produced" using swept(6) True e by simp
        show "more_routes s' = produced" using swept(7) e by simp
        show "call_strategy (fst (last cs)) \<noteq> ''Exact'' \<longrightarrow> produced" using e by simp
      qed
    next
      case False
      with assms n have "attempt_solve_Exact X vehicle d s1 w1 = (produced, s', w')"
        by (simp add: solve_subproblem_with_heuristic_unfold)
      from attempt_solve_Exact_summary [OF this] obtain c where
        c: "calls s' = calls s1 @ [(c, produced)]" "call_strategy c = ''Exact''"
           "more_routes s' = produced"
        by blast
      have all_failed: "\<forall>c \<in> set cs. \<not> snd c"
      proof
        fix x assume x: "x \<in> set cs"
        from swept(3) have "cs = butlast cs @ [last cs]" by simp
        with x have "x \<in> set (butlast cs) \<or> x = last cs"
          by (metis Un_iff empty_iff empty_set insert_iff list.simps(15) set_append)
        with swept(5) swept(6) False show "\<not> snd x" by auto
      qed
      show ?thesis
      proof (intro exI [of _ "cs @ [(c, produced)]"] conjI)
        show "calls s' = calls s @ cs @ [(c, produced)]" using swept(2) c(1) by simp
        show "cs @ [(c, produced)] \<noteq> []" by simp
        show "\<forall>x \<in> set (butlast (cs @ [(c, produced)])).
                \<not> snd x \<and> call_strategy (fst x) \<noteq> ''Exact''"
          using all_failed swept(4) ne by simp
        show "snd (last (cs @ [(c, produced)])) = produced" by simp
        show "more_routes s' = produced" by (rule c(3))
        show "call_strategy (fst (last (cs @ [(c, produced)]))) \<noteq> ''Exact'' \<longrightarrow> produced"
          using c(2) by simp
      qed
    qed
  next
    case none
    with assms n have "attempt_solve_Exact X vehicle d s w = (produced, s', w')"
      by (auto simp add: solve_subproblem_with_heuristic_unfold)
    from attempt_solve_Exact_summary [OF this] obtain c where
      c: "calls s' = calls s @ [(c, produced)]" "call_strategy c = ''Exact''"
         "more_routes s' = produced"
      by blast
    then show ?thesis
      by (intro exI [of _ "[(c, produced)]"]) simp
  qed
qed

lemma hyper_calls:
  assumes "solve_subproblem_with_heuristic X strategy vehicle d s w = (produced, s', w')"
    and "pricing_strategy s = ''Hyper''"
  shows "(strategy = ''Exact''
            \<and> (\<exists>c. calls s' = calls s @ [(c, produced)] \<and> call_strategy c = ''Exact''
                   \<and> more_routes s' = produced))
       \<or> (strategy \<in> {''BestPaths'', ''BestEdges1'', ''BestEdges2''}
            \<and> (\<exists>cs. calls s' = calls s @ cs \<and> cs \<noteq> []
                 \<and> (\<forall>c \<in> set cs. call_strategy (fst c) = strategy)
                 \<and> (\<forall>c \<in> set (butlast cs). \<not> snd c)
                 \<and> snd (last cs) = produced \<and> more_routes s'))
       \<or> (strategy \<notin> {''BestPaths'', ''BestEdges1'', ''BestEdges2'', ''Exact''}
            \<and> \<not> produced \<and> s' = s \<and> w' = w)"
proof (cases "strategy = ''Exact''")
  case True
  with assms have "attempt_solve_Exact X vehicle d s (hh_incr_n_exact X w) = (produced, s', w')"
    by (simp add: solve_subproblem_with_heuristic_unfold)
  from attempt_solve_Exact_summary [OF this] True show ?thesis by auto
next
  case False
  with assms have "non_exact_attempt X strategy vehicle d s w = (produced, s', w')"
    by (simp add: solve_subproblem_with_heuristic_unfold)
  from non_exact_attempt_summary [OF this] False show ?thesis by auto
qed


lemma py_index_last: "py_index n (- 1) = (if n = 0 then None else Some (n - 1))"
  by (auto simp add: py_index_def nat_diff_distrib' int_ops)

lemma py_get_last: "py_get xs (- 1) = (if xs = [] then Inl IndexError else Inr (last xs))"
  by (simp add: py_get_def py_index_last last_conv_nth)

lemma py_set_last:
  "py_set xs (- 1) v = (if xs = [] then Inl IndexError else Inr (butlast xs @ [v]))"
proof (cases xs rule: rev_cases)
  case Nil
  then show ?thesis by (simp add: py_set_def py_index_last)
next
  case (snoc ys z)
  then show ?thesis by (simp add: py_set_def py_index_last)
qed

lemma produced_more_routes:
  assumes "solve_subproblem_with_heuristic X strategy vehicle d s w = (produced, s', w')"
    and "produced"
  shows "more_routes s'"
proof (cases "pricing_strategy s = ''Hyper''")
  case True
  from hyper_calls [OF assms(1) True] assms(2) show ?thesis by auto
next
  case False
  from old_approach_calls [OF assms(1) False] assms(2) show ?thesis by auto
qed

lemma price_vehicle_cases:
  assumes "price_vehicle X strategy vehicle d s w = Inr (s', w')"
  obtains produced s1 w1 where
    "solve_subproblem_with_heuristic X strategy vehicle d (s\<lparr>more_routes := False\<rparr>) w
       = (produced, s1, w1)"
    "calls s' = calls s1" "more_routes s' = more_routes s1" "config_kept s1 s'"
    "produced_column s' = Some produced" "routes_pool s' = routes_pool s1"
    "produced \<longrightarrow> routes s1 \<noteq> []
        \<and> routes s' = butlast (routes s1) @ [(last (routes s1))\<lparr>heuristic := Some strategy\<rparr>]
        \<and> update ((last (routes s1))\<lparr>heuristic := Some strategy\<rparr>) (masterproblem s1)
            = Inr (masterproblem s')"
    "\<not> produced \<longrightarrow> routes s' = routes s1 \<and> masterproblem s' = masterproblem s1"
proof -
  obtain produced s1 w1 where a:
    "solve_subproblem_with_heuristic X strategy vehicle d (s\<lparr>more_routes := False\<rparr>) w
       = (produced, s1, w1)"
    by (cases "solve_subproblem_with_heuristic X strategy vehicle d (s\<lparr>more_routes := False\<rparr>) w")
  show thesis
  proof (cases produced)
    case True
    with produced_more_routes [OF a] have m: "more_routes s1" by simp
    from assms a True m have ne: "routes s1 \<noteq> []"
      by (auto simp add: price_vehicle_def py_get_last split: if_splits)
    from assms a True m ne obtain m' where
      u: "update ((last (routes s1))\<lparr>heuristic := Some strategy\<rparr>) (masterproblem s1) = Inr m'"
      and e: "s' = s1\<lparr>produced_column := Some True,
                 routes := butlast (routes s1) @ [(last (routes s1))\<lparr>heuristic := Some strategy\<rparr>],
                 masterproblem := m'\<rparr>"
      by (auto simp add: price_vehicle_def py_get_last py_set_last split: sum.splits)
    show ?thesis
      by (rule that [OF a]) (use True u e ne in \<open>simp_all add: config_kept_def\<close>)
  next
    case False
    with assms a have "s' = s1\<lparr>produced_column := Some False\<rparr>"
      by (auto simp add: price_vehicle_def Let_def split: if_splits prod.splits)
    with False show ?thesis
      by (intro that [OF a]) (simp_all add: config_kept_def)
  qed
qed



lemma greedy_pass_kept:
  assumes "greedy_pass X vehicle d s w = Inr (s', w')"
  shows "config_kept s s' \<and> calls s' = calls s \<and> produced_column s' = produced_column s"
  using assms
  by (auto simp add: greedy_pass_def set_pool_def config_kept_def Let_def
      split: if_splits prod.splits sum.splits)

lemma route_column_kept:
  "master_kept m m' \<Longrightarrow> route_column m' r = route_column m r"
proof -
  assume "master_kept m m'"
  then have "set_covering_constrs m' = set_covering_constrs m"
    "vehicle_bound_constrs m' = vehicle_bound_constrs m" "num_vehicles m' = num_vehicles m"
    by (simp_all add: master_kept_def)
  then have "covering_terms m' r = covering_terms m r" "bound_terms m' r = bound_terms m r"
    by (simp_all add: covering_terms_def bound_terms_def)
  then show ?thesis
    by (simp add: route_column_def split: sum.splits)
qed

lemma update_column:
  assumes "update r m = Inr m'"
  shows "\<exists>col. route_column m r = Inr col
           \<and> m' = m\<lparr>y := (y m)(name r \<mapsto> col),
                     shadowed := shadowed m @ (case y m (name r) of None \<Rightarrow> []
                                               | Some old \<Rightarrow> [(name r, old)])\<rparr>"
  using assms
  by (auto simp add: update_def add_route_selection_variable_def split: sum.splits option.splits)

lemma columns_named_update:
  "columns_named (m\<lparr>y := (y m)(n \<mapsto> col),
                     shadowed := shadowed m @ (case y m n of None \<Rightarrow> [] | Some old \<Rightarrow> [(n, old)])\<rparr>) k
     = columns_named m k @ (if k = n then [col] else [])"
  by (simp add: columns_named_def split: option.splits)

lemma columns_named_kept: "master_kept m m' \<Longrightarrow> columns_named m' k = columns_named m k"
  by (simp add: columns_named_def master_kept_def)

lemma columns_among_extended:
  assumes "\<And>k. columns_named m' k = columns_named m k @ (if k = n then [c] else [])"
    and "distinct ks"
  shows "length (columns_among m' ks)
           = length (columns_among m ks) + (if n \<in> set ks then 1 else 0)"
  using assms(2)
proof (induction ks)
  case Nil
  then show ?case by (simp add: columns_among_def)
next
  case (Cons k ks)
  then have "length (columns_among m' ks)
               = length (columns_among m ks) + (if n \<in> set ks then 1 else 0)"
    and "k \<notin> set ks"
    by simp_all
  with assms(1) [of k] show ?case
    by (auto simp add: columns_among_def)
qed

text \<open>
  C7. Each of the three non-exact attempts calls the subproblem with its own strategy, for the
  given vehicle type, on the parameter values of its list in their order (3, 5, 7, 9 for
  BestPaths; 0.3, 0.5, 0.7, 0.9 for BestEdges1; 0.1, 0.2, 0.3 for BestEdges2). Every call but
  the last one made has found no route. When the attempt reports a column, the last call made
  has found a route, so the sweep stopped at the first success; when it reports none, the whole
  list has been tried and no call has found a route.
\<close>

theorem non_exact_attempts:
  assumes "(strategy = ''BestPaths'' \<and> ps = [3, 5, 7, 9]
              \<and> attempt_solve_best_paths X vehicle d s w = (produced, s', w'))
         \<or> (strategy = ''BestEdges1'' \<and> ps = [0.3, 0.5, 0.7, 0.9]
              \<and> attempt_solve_BestEdges1 X vehicle d s w = (produced, s', w'))
         \<or> (strategy = ''BestEdges2'' \<and> ps = [0.1, 0.2, 0.3]
              \<and> attempt_solve_BestEdges2 X vehicle d s w = (produced, s', w'))"
  shows "\<exists>cs. calls s' = calls s @ cs
           \<and> map (\<lambda>c. (call_strategy (fst c), call_parameter (fst c), call_vehicle (fst c))) cs
               = map (\<lambda>p. (strategy, Some p, vehicle)) (take (length cs) ps)
           \<and> (\<forall>c \<in> set (butlast cs). \<not> snd c)
           \<and> (produced \<longrightarrow> cs \<noteq> [] \<and> snd (last cs))
           \<and> (\<not> produced \<longrightarrow> length cs = length ps \<and> (\<forall>c \<in> set cs. \<not> snd c))"
proof -
  from assms have "sweep X strategy vehicle d False ps s w = (produced, s', w')"
    by (auto simp add: attempt_solve_best_paths_def attempt_solve_BestEdges1_def
        attempt_solve_BestEdges2_def)
  then show ?thesis by (rule sweep_calls)
qed

text \<open>With pricing that finds a route only for the parameter 7, the BestPaths attempt makes
  the calls for 3, 5 and 7 and reports a column.\<close>

theorem non_exact_attempts_witness:
  "fst (attempt_solve_best_paths example_ext_7 0 example_duals (example_vrp ''BestPaths'' None) ())
   \<and> map (\<lambda>c. (call_strategy (fst c), call_parameter (fst c), snd c))
        (calls (fst (snd (attempt_solve_best_paths example_ext_7 0 example_duals
                            (example_vrp ''BestPaths'' None) ()))))
       = [(''BestPaths'', Some 3, False), (''BestPaths'', Some 5, False),
          (''BestPaths'', Some 7, True)]"
  using non_exact_attempts [of "''BestPaths''" "[3, 5, 7, 9]" example_ext_7 0 example_duals
      "example_vrp ''BestPaths'' None" "()"
      "fst (attempt_solve_best_paths example_ext_7 0 example_duals (example_vrp ''BestPaths'' None) ())"
      "fst (snd (attempt_solve_best_paths example_ext_7 0 example_duals (example_vrp ''BestPaths'' None) ()))"
      "snd (snd (attempt_solve_best_paths example_ext_7 0 example_duals (example_vrp ''BestPaths'' None) ()))"]
  by (simp add: attempt_solve_best_paths_def call_subproblem_def get_time_remaining_def
      truthy_def set_pool_def example_ext_7_def example_ext_def example_vrp_def)

section \<open>Adding the column of a vehicle type\<close>

text \<open>
  C10. Consider the pricing of one vehicle type after the greedy pass, and let it end with
  \<open>produced_column\<close> true. Then the attempt has returned a non-empty list of routes; its last
  route, and no other, gets the strategy of the iteration as its tag; and the master problem
  has exactly one column more, the column of that route. In detail: the new column is stored
  in \<open>y\<close> under the name of the route; a column that \<open>y\<close> held under that name stays in the
  problem; under every name the columns are those there were before, unchanged and in their
  order, followed for the name of the route by the new column, so that among the routes of any
  set of names there is one column more when the name of the route is among them and none
  otherwise; and the rest of the master problem (the covering and bound constraints and the
  other variables) is as before, the pool of routes apart.
\<close>

theorem price_vehicle_adds_last_route:
  assumes "price_vehicle X strategy vehicle d s w = Inr (s', w')"
    and "produced_column s' = Some True"
  shows "\<exists>s1 w1 r col.
           solve_subproblem_with_heuristic X strategy vehicle d (s\<lparr>more_routes := False\<rparr>) w
             = (True, s1, w1)
         \<and> routes s1 \<noteq> [] \<and> r = (last (routes s1))\<lparr>heuristic := Some strategy\<rparr>
         \<and> routes s' = butlast (routes s1) @ [r]
         \<and> route_column (masterproblem s) r = Inr col
         \<and> y (masterproblem s') = (y (masterproblem s))(name r \<mapsto> col)
         \<and> shadowed (masterproblem s')
             = shadowed (masterproblem s)
                 @ (case y (masterproblem s) (name r) of None \<Rightarrow> [] | Some old \<Rightarrow> [(name r, old)])
         \<and> (\<forall>k. columns_named (masterproblem s') k
                  = columns_named (masterproblem s) k @ (if k = name r then [col] else []))
         \<and> (\<forall>ks. distinct ks \<longrightarrow>
                length (columns_among (masterproblem s') ks)
                  = length (columns_among (masterproblem s) ks)
                      + (if name r \<in> set ks then 1 else 0))
         \<and> master_kept
              ((masterproblem s)
                 \<lparr>y := (y (masterproblem s))(name r \<mapsto> col),
                  shadowed := shadowed (masterproblem s)
                     @ (case y (masterproblem s) (name r) of None \<Rightarrow> []
                        | Some old \<Rightarrow> [(name r, old)])\<rparr>)
              (masterproblem s')"
proof -
  from assms(1) obtain produced s1 w1 where
    a: "solve_subproblem_with_heuristic X strategy vehicle d (s\<lparr>more_routes := False\<rparr>) w
          = (produced, s1, w1)"
    and p: "produced_column s' = Some produced"
    and u: "produced \<longrightarrow> routes s1 \<noteq> []
        \<and> routes s' = butlast (routes s1) @ [(last (routes s1))\<lparr>heuristic := Some strategy\<rparr>]
        \<and> update ((last (routes s1))\<lparr>heuristic := Some strategy\<rparr>) (masterproblem s1)
            = Inr (masterproblem s')"
    by (rule price_vehicle_cases) blast
  from p assms(2) have t: "produced" by simp
  define r where "r = (last (routes s1))\<lparr>heuristic := Some strategy\<rparr>"
  define m where "m = masterproblem s"
  define m1 where "m1 = masterproblem s1"
  define m' where "m' = masterproblem s'"
  from solve_subproblem_with_heuristic_kept [OF a]
  have k: "master_kept m m1" by (simp add: m_def m1_def)
  from u t r_def have ne: "routes s1 \<noteq> []" and rs: "routes s' = butlast (routes s1) @ [r]"
    and up: "update r m1 = Inr m'"
    by (simp_all add: m1_def m'_def)
  from update_column [OF up] obtain col where
    c: "route_column m1 r = Inr col"
    and e: "m' = m1\<lparr>y := (y m1)(name r \<mapsto> col),
                    shadowed := shadowed m1 @ (case y m1 (name r) of None \<Rightarrow> []
                                                | Some old \<Rightarrow> [(name r, old)])\<rparr>"
    by blast
  from k have ky: "y m1 = y m" and ks: "shadowed m1 = shadowed m"
    by (simp_all add: master_kept_def)
  from c route_column_kept [OF k] have c': "route_column m r = Inr col"
    by simp
  from e ky have y': "y m' = (y m)(name r \<mapsto> col)"
    by simp
  from e ky ks have sh: "shadowed m' = shadowed m @ (case y m (name r) of None \<Rightarrow> []
                                                    | Some old \<Rightarrow> [(name r, old)])"
    by simp
  have cn: "columns_named m' k = columns_named m k @ (if k = name r then [col] else [])" for k
  proof -
    from e have "columns_named m' k = columns_named m1 k @ (if k = name r then [col] else [])"
      by (simp only: columns_named_update)
    with columns_named_kept [OF k] show ?thesis by simp
  qed
  from cn have ca: "distinct ks \<Longrightarrow>
      length (columns_among m' ks)
        = length (columns_among m ks) + (if name r \<in> set ks then 1 else 0)" for ks
    by (rule columns_among_extended)
  from e k ky ks have mk: "master_kept (m\<lparr>y := (y m)(name r \<mapsto> col),
                                shadowed := shadowed m @ (case y m (name r) of None \<Rightarrow> []
                                                          | Some old \<Rightarrow> [(name r, old)])\<rparr>) m'"
    by (simp add: master_kept_def)
  from a t have a': "solve_subproblem_with_heuristic X strategy vehicle d (s\<lparr>more_routes := False\<rparr>) w
             = (True, s1, w1)" by simp
  show ?thesis
    by (intro exI [of _ s1] exI [of _ w1] exI [of _ r] exI [of _ col] conjI allI impI)
       (use a' ne r_def rs c' y' sh cn ca mk in \<open>simp_all add: m_def m'_def\<close>)
qed

text \<open>An exact attempt that returns the routes 5 and 6, on a master problem that already has a
  column under the name 6: route 6 is tagged and gets the only new column, and the column that
  was there is still in the problem, behind the new one.\<close>

theorem price_vehicle_adds_last_route_witness:
  "(case price_vehicle example_ext_10 ''Exact'' 0 example_duals example_priced () of
      Inl e \<Rightarrow> False
    | Inr (s', w') \<Rightarrow>
        produced_column s' = Some True
      \<and> routes s' = [example_route 5, (example_route 6)\<lparr>heuristic := Some ''Exact''\<rparr>]
      \<and> y (masterproblem s') = [6 \<mapsto> example_variable None]
      \<and> shadowed (masterproblem s') = [(6, example_variable (Some 1))]
      \<and> columns_named (masterproblem s') 6 = [example_variable (Some 1), example_variable None]
      \<and> columns_named (masterproblem s') 5 = []
      \<and> length (columns_among (masterproblem s') [5, 6])
          = length (columns_among (masterproblem example_priced) [5, 6]) + 1)"
proof -
  have "\<exists>s' w'. price_vehicle example_ext_10 ''Exact'' 0 example_duals example_priced ()
                  = Inr (s', w')
             \<and> produced_column s' = Some True
             \<and> routes s' = [example_route 5, (example_route 6)\<lparr>heuristic := Some ''Exact''\<rparr>]
             \<and> y (masterproblem s') = [6 \<mapsto> example_variable None]
             \<and> shadowed (masterproblem s') = [(6, example_variable (Some 1))]"
    by (simp add: price_vehicle_def solve_subproblem_with_heuristic_def attempt_solve_Exact_def
        call_subproblem_def get_time_remaining_def truthy_def set_pool_def py_get_last
        py_set_last update_def add_route_selection_variable_def route_column_def
        covering_terms_def bound_terms_def example_ext_10_def example_ext_def example_vrp_def
        example_priced_def example_master_def example_route_def example_variable_def)
  then obtain s' w' where
    h: "price_vehicle example_ext_10 ''Exact'' 0 example_duals example_priced () = Inr (s', w')"
    and p: "produced_column s' = Some True"
    and r: "routes s' = [example_route 5, (example_route 6)\<lparr>heuristic := Some ''Exact''\<rparr>]"
       "y (masterproblem s') = [6 \<mapsto> example_variable None]"
       "shadowed (masterproblem s') = [(6, example_variable (Some 1))]"
    by blast
  from r have c: "columns_named (masterproblem s') 6
                    = [example_variable (Some 1), example_variable None]"
    "columns_named (masterproblem s') 5 = []"
    "length (columns_among (masterproblem s') [5, 6])
       = length (columns_among (masterproblem example_priced) [5, 6]) + 1"
    by (simp_all add: columns_among_def columns_named_def example_priced_def example_master_def)
  from price_vehicle_adds_last_route [OF h p] h p r c show ?thesis
    by simp
qed

section \<open>One iteration\<close>

lemma for_loop_induct:
  assumes "for_loop xs body s = Inr s'" and "P s"
    and "\<And>x t t'. x \<in> set xs \<Longrightarrow> P t \<Longrightarrow> body x t = Inr t' \<Longrightarrow> P t'"
  shows "P s'"
  using assms
proof (induction xs arbitrary: s)
  case Nil
  then show ?case by simp
next
  case (Cons x xs)
  from Cons.prems(1) obtain t where b: "body x s = Inr t" and r: "for_loop xs body t = Inr s'"
    by (auto split: sum.splits)
  from Cons.prems(3) [OF _ Cons.prems(2) b] have "P t" by simp
  moreover have "\<And>y t t'. y \<in> set xs \<Longrightarrow> P t \<Longrightarrow> body y t = Inr t' \<Longrightarrow> P t'"
    using Cons.prems(3) by (meson list.set_intros(2))
  ultimately show ?case using Cons.IH [OF r] by blast
qed

lemma find_columns_vehicle_cases:
  assumes "find_columns_vehicle X strategy d vehicle (s, w) = Inr (s', w')"
  obtains s0 w0 where "greedy_pass X vehicle d s w = Inr (s0, w0)"
    "price_vehicle X strategy vehicle d s0 w0 = Inr (s', w')"
  using assms
  by (auto simp add: find_columns_vehicle_def split: sum.splits)

lemma price_vehicle_kept:
  assumes "price_vehicle X strategy vehicle d s w = Inr (s', w')"
  shows "config_kept s s'"
proof -
  from assms obtain produced s1 w1 where
    a: "solve_subproblem_with_heuristic X strategy vehicle d (s\<lparr>more_routes := False\<rparr>) w
          = (produced, s1, w1)"
    and k: "config_kept s1 s'"
    by (rule price_vehicle_cases) blast
  from solve_subproblem_with_heuristic_kept [OF a] have "config_kept (s\<lparr>more_routes := False\<rparr>) s1"
    by simp
  then have "config_kept s s1" by (simp add: config_kept_def)
  from this k show ?thesis by (rule config_kept_trans)
qed

lemma find_columns_vehicle_kept:
  assumes "find_columns_vehicle X strategy d vehicle (s, w) = Inr (s', w')"
  shows "config_kept s s'"
proof -
  from assms obtain s0 w0 where g: "greedy_pass X vehicle d s w = Inr (s0, w0)"
    and p: "price_vehicle X strategy vehicle d s0 w0 = Inr (s', w')"
    by (rule find_columns_vehicle_cases)
  from greedy_pass_kept [OF g] price_vehicle_kept [OF p] show ?thesis
    by (auto intro: config_kept_trans)
qed

text \<open>The calls of one vehicle type under the old approach.\<close>

lemma find_columns_vehicle_old_approach:
  assumes "find_columns_vehicle X strategy d vehicle (s, w) = Inr (s', w')"
    and "pricing_strategy s \<noteq> ''Hyper''"
  shows "\<exists>cs. calls s' = calls s @ cs \<and> cs \<noteq> []
           \<and> (\<forall>c \<in> set (butlast cs). \<not> snd c \<and> call_strategy (fst c) \<noteq> ''Exact'')
           \<and> more_routes s' = snd (last cs)
           \<and> (call_strategy (fst (last cs)) \<noteq> ''Exact'' \<longrightarrow> snd (last cs))"
proof -
  from assms(1) obtain s0 w0 where g: "greedy_pass X vehicle d s w = Inr (s0, w0)"
    and p: "price_vehicle X strategy vehicle d s0 w0 = Inr (s', w')"
    by (rule find_columns_vehicle_cases)
  from greedy_pass_kept [OF g] assms(2) have ps: "pricing_strategy s0 \<noteq> ''Hyper''"
    and c0: "calls s0 = calls s"
    by (simp_all add: config_kept_def)
  from p obtain produced s1 w1 where
    a: "solve_subproblem_with_heuristic X strategy vehicle d (s0\<lparr>more_routes := False\<rparr>) w0
          = (produced, s1, w1)"
    and c1: "calls s' = calls s1" and m1: "more_routes s' = more_routes s1"
    by (rule price_vehicle_cases) blast
  from ps have "pricing_strategy (s0\<lparr>more_routes := False\<rparr>) \<noteq> ''Hyper''" by simp
  from old_approach_calls [OF a this] c0 c1 m1 show ?thesis
    by auto
qed



lemma pick_strategy_effect:
  assumes "pick_strategy X relaxed_cost freq s w = (strategy, s2, w2)"
  shows "calls s2 = calls s \<and> more_routes s2 = more_routes s
       \<and> pricing_strategy s2 = pricing_strategy s \<and> vehicle_types s2 = vehicle_types s
       \<and> iteration s2 = iteration s \<and> lower_bound s2 = lower_bound s \<and> dive s2 = dive s
       \<and> max_iter s2 = max_iter s \<and> time_limit s2 = time_limit s
       \<and> start_time s2 = start_time s
       \<and> no_improvement s2 = (if no_improvement s = do_exact s then 0 else no_improvement s)
       \<and> (pricing_strategy s \<noteq> ''Hyper'' \<longrightarrow>
            do_exact s2 = do_exact s
          \<and> strategy = (if no_improvement s = do_exact s then ''Exact'' else pricing_strategy s))
       \<and> (pricing_strategy s = ''Hyper'' \<longrightarrow>
            strategy = ''BestPaths'' \<or> strategy = ''Exact''
          \<or> (\<exists>v. strategy = fst (pick_heurestic X v)))"
proof (cases "pricing_strategy s = ''Hyper'' \<and> no_improvement s \<noteq> do_exact s")
  case True
  show ?thesis
  proof (cases "hh_initialisation X w")
    case init: True
    with True assms show ?thesis
      by (auto simp add: pick_strategy_def Let_def split: if_splits)
  next
    case False
    with True assms show ?thesis
      by (auto simp add: pick_strategy_def Let_def split: prod.splits) (metis fst_conv)
  qed
next
  case False
  with assms show ?thesis
    by (auto simp add: pick_strategy_def split: if_splits)
qed

lemma track_convergence_effect:
  assumes "track_convergence relaxed_cost s = Inr s'"
  shows "calls s' = calls s \<and> more_routes s' = more_routes s
       \<and> pricing_strategy s' = pricing_strategy s \<and> vehicle_types s' = vehicle_types s
       \<and> do_exact s' = do_exact s \<and> dive s' = dive s \<and> max_iter s' = max_iter s
       \<and> time_limit s' = time_limit s \<and> start_time s' = start_time s
       \<and> iteration s' = iteration s + 1
       \<and> (1 \<le> iteration s \<longrightarrow> lower_bound s \<noteq> [])
       \<and> no_improvement s' =
           (if 1 \<le> iteration s \<and> relaxed_cost = last (lower_bound s)
            then no_improvement s + 1 else 0)
       \<and> lower_bound s' = (if dive s then lower_bound s else lower_bound s @ [relaxed_cost])"
  using assms
  by (auto simp add: track_convergence_def Let_def py_get_last split: if_splits sum.splits)

lemma find_columns_cases:
  assumes "find_columns X s w = Inr (s', w')"
  obtains d relaxed_cost m1 w1 best_paths freq m2 strategy s2 w2 s3 w3 where
    "solve_master X s w = Inr ((d, relaxed_cost), m1, w1)"
    "get_heuristic_distribution m1 = Inr ((best_paths, freq), m2)"
    "pick_strategy X relaxed_cost freq (set_pool (mp_routes m2) (s\<lparr>masterproblem := m2\<rparr>)) w1
       = (strategy, s2, w2)"
    "for_loop [0..<vehicle_types s2] (find_columns_vehicle X strategy d) (s2, w2) = Inr (s3, w3)"
    "track_convergence relaxed_cost s3 = Inr s'"
proof -
  from assms obtain d relaxed_cost m1 w1 where
    a: "solve_master X s w = Inr ((d, relaxed_cost), m1, w1)"
    by (auto simp add: find_columns_def split: sum.splits)
  from assms a obtain best_paths freq m2 where
    b: "get_heuristic_distribution m1 = Inr ((best_paths, freq), m2)"
    by (auto simp add: find_columns_def split: sum.splits)
  obtain strategy s2 w2 where
    c: "pick_strategy X relaxed_cost freq (set_pool (mp_routes m2) (s\<lparr>masterproblem := m2\<rparr>)) w1
       = (strategy, s2, w2)"
    by (cases "pick_strategy X relaxed_cost freq
                 (set_pool (mp_routes m2) (s\<lparr>masterproblem := m2\<rparr>)) w1")
  from assms a b c obtain s3 w3 where
    e: "for_loop [0..<vehicle_types s2] (find_columns_vehicle X strategy d) (s2, w2) = Inr (s3, w3)"
    by (auto simp add: find_columns_def split: sum.splits)
  from assms a b c e have f: "track_convergence relaxed_cost s3 = Inr s'"
    by (auto simp add: find_columns_def split: sum.splits)
  from a b c e f show thesis by (rule that)
qed

lemma vehicles_kept:
  assumes "for_loop xs (find_columns_vehicle X strategy d) (s, w) = Inr (s', w')"
  shows "config_kept s s'"
proof -
  have "config_kept s (fst (s', w'))"
  proof (rule for_loop_induct [OF assms, where P = "\<lambda>t. config_kept s (fst t)"])
    show "config_kept s (fst (s, w))" by (simp add: config_kept_refl)
  next
    fix x t t'
    assume "config_kept s (fst t)" and "find_columns_vehicle X strategy d x t = Inr t'"
    then show "config_kept s (fst t')"
      using find_columns_vehicle_kept [of X strategy d x "fst t" "snd t" "fst t'" "snd t'"]
      by (auto intro: config_kept_trans)
  qed
  then show ?thesis by simp
qed


lemma vehicles_old_approach:
  assumes "for_loop xs (find_columns_vehicle X strategy d) (s, w) = Inr (s', w')"
    and "pricing_strategy s \<noteq> ''Hyper''"
  shows "\<exists>cs. calls s' = calls s @ cs
           \<and> (xs \<noteq> [] \<longrightarrow>
                 (\<exists>c \<in> set cs. call_strategy (fst c) \<noteq> ''Exact'' \<and> snd c)
               \<or> (\<exists>c \<in> set cs. call_strategy (fst c) = ''Exact''))"
  using assms
proof (induction xs arbitrary: s w)
  case Nil
  then show ?case by simp
next
  case (Cons x xs)
  from Cons.prems(1) obtain s1 w1 where
    b: "find_columns_vehicle X strategy d x (s, w) = Inr (s1, w1)"
    and r: "for_loop xs (find_columns_vehicle X strategy d) (s1, w1) = Inr (s', w')"
    by (auto split: sum.splits)
  from find_columns_vehicle_old_approach [OF b Cons.prems(2)] obtain cs1 where
    c1: "calls s1 = calls s @ cs1" "cs1 \<noteq> []"
        "call_strategy (fst (last cs1)) \<noteq> ''Exact'' \<longrightarrow> snd (last cs1)"
    by blast
  from find_columns_vehicle_kept [OF b] Cons.prems(2) have "pricing_strategy s1 \<noteq> ''Hyper''"
    by (simp add: config_kept_def)
  from Cons.IH [OF r this] obtain cs2 where c2: "calls s' = calls s1 @ cs2"
    by blast
  from c1(2) have l: "last cs1 \<in> set cs1" by simp
  have "(\<exists>c \<in> set (cs1 @ cs2). call_strategy (fst c) \<noteq> ''Exact'' \<and> snd c)
        \<or> (\<exists>c \<in> set (cs1 @ cs2). call_strategy (fst c) = ''Exact'')"
  proof (cases "call_strategy (fst (last cs1)) = ''Exact''")
    case True
    with l show ?thesis by auto
  next
    case False
    with c1(3) l show ?thesis by auto
  qed
  with c1(1) c2 show ?case
    by (intro exI [of _ "cs1 @ cs2"]) simp
qed

text \<open>
  C1, as the program has it. Let the configured pricing strategy be other than \<open>Hyper\<close> and let
  there be at least one vehicle type. If, in an iteration that ends normally, no call of a
  non-exact strategy has found a route, then the iteration contains a call of the strategy
  \<open>Exact\<close>: a failed sweep is followed by the exact attempt before the iteration ends.
\<close>

theorem old_approach_escalates:
  assumes "find_columns X s w = Inr (s', w')"
    and "pricing_strategy s \<noteq> ''Hyper''" and "0 < vehicle_types s"
  shows "\<exists>cs. calls s' = calls s @ cs
           \<and> ((\<forall>c \<in> set cs. call_strategy (fst c) \<noteq> ''Exact'' \<longrightarrow> \<not> snd c)
                \<longrightarrow> (\<exists>c \<in> set cs. call_strategy (fst c) = ''Exact''))"
proof -
  from assms(1) obtain d relaxed_cost m1 w1 best_paths freq m2 strategy s2 w2 s3 w3 where
    p: "pick_strategy X relaxed_cost freq (set_pool (mp_routes m2) (s\<lparr>masterproblem := m2\<rparr>)) w1
         = (strategy, s2, w2)"
    and l: "for_loop [0..<vehicle_types s2] (find_columns_vehicle X strategy d) (s2, w2)
         = Inr (s3, w3)"
    and t: "track_convergence relaxed_cost s3 = Inr s'"
    by (rule find_columns_cases)
  from pick_strategy_effect [OF p] have
    e2: "calls s2 = calls s" "pricing_strategy s2 = pricing_strategy s"
        "vehicle_types s2 = vehicle_types s"
    by (simp_all add: set_pool_def)
  from e2 assms have ps: "pricing_strategy s2 \<noteq> ''Hyper''" and ne: "[0..<vehicle_types s2] \<noteq> []"
    by simp_all
  from vehicles_old_approach [OF l ps] ne obtain cs where
    c: "calls s3 = calls s2 @ cs"
       "(\<exists>c \<in> set cs. call_strategy (fst c) \<noteq> ''Exact'' \<and> snd c)
        \<or> (\<exists>c \<in> set cs. call_strategy (fst c) = ''Exact'')"
    by blast
  from track_convergence_effect [OF t] have "calls s' = calls s3" by simp
  with c e2 show ?thesis
    by (intro exI [of _ cs]) auto
qed

lemma find_columns_vehicle_flag:
  assumes "find_columns_vehicle X strategy d vehicle (s, w) = Inr (s', w')"
    and "pricing_strategy s \<noteq> ''Hyper''
         \<or> strategy \<in> {''BestPaths'', ''BestEdges1'', ''BestEdges2'', ''Exact''}"
  shows "\<exists>cs. calls s' = calls s @ cs
           \<and> (\<not> more_routes s' \<longrightarrow>
                 cs \<noteq> [] \<and> call_strategy (fst (last cs)) = ''Exact'' \<and> \<not> snd (last cs))"
proof (cases "pricing_strategy s = ''Hyper''")
  case False
  from find_columns_vehicle_old_approach [OF assms(1) False] show ?thesis
    by auto
next
  case True
  from assms(1) obtain s0 w0 where g: "greedy_pass X vehicle d s w = Inr (s0, w0)"
    and p: "price_vehicle X strategy vehicle d s0 w0 = Inr (s', w')"
    by (rule find_columns_vehicle_cases)
  from greedy_pass_kept [OF g] True have ps: "pricing_strategy s0 = ''Hyper''"
    and c0: "calls s0 = calls s"
    by (simp_all add: config_kept_def)
  from p obtain produced s1 w1 where
    a: "solve_subproblem_with_heuristic X strategy vehicle d (s0\<lparr>more_routes := False\<rparr>) w0
          = (produced, s1, w1)"
    and c1: "calls s' = calls s1" and m1: "more_routes s' = more_routes s1"
    by (rule price_vehicle_cases) blast
  from ps have "pricing_strategy (s0\<lparr>more_routes := False\<rparr>) = ''Hyper''" by simp
  from hyper_calls [OF a this] assms(2) True c0 c1 m1 show ?thesis
    by auto
qed

lemma vehicles_flag:
  assumes "for_loop xs (find_columns_vehicle X strategy d) (s, w) = Inr (s', w')"
    and "pricing_strategy s \<noteq> ''Hyper''
         \<or> strategy \<in> {''BestPaths'', ''BestEdges1'', ''BestEdges2'', ''Exact''}"
  shows "\<exists>cs. calls s' = calls s @ cs
           \<and> (\<not> more_routes s' \<longrightarrow>
                 (cs = [] \<and> \<not> more_routes s)
               \<or> (cs \<noteq> [] \<and> call_strategy (fst (last cs)) = ''Exact'' \<and> \<not> snd (last cs)))"
  using assms
proof (induction xs arbitrary: s w)
  case Nil
  then show ?case by simp
next
  case (Cons x xs)
  from Cons.prems(1) obtain s1 w1 where
    b: "find_columns_vehicle X strategy d x (s, w) = Inr (s1, w1)"
    and r: "for_loop xs (find_columns_vehicle X strategy d) (s1, w1) = Inr (s', w')"
    by (auto split: sum.splits)
  from find_columns_vehicle_flag [OF b Cons.prems(2)] obtain cs1 where
    c1: "calls s1 = calls s @ cs1"
        "\<not> more_routes s1 \<longrightarrow>
           cs1 \<noteq> [] \<and> call_strategy (fst (last cs1)) = ''Exact'' \<and> \<not> snd (last cs1)"
    by blast
  from find_columns_vehicle_kept [OF b] Cons.prems(2)
  have "pricing_strategy s1 \<noteq> ''Hyper''
         \<or> strategy \<in> {''BestPaths'', ''BestEdges1'', ''BestEdges2'', ''Exact''}"
    by (simp add: config_kept_def)
  from Cons.IH [OF r this] obtain cs2 where
    c2: "calls s' = calls s1 @ cs2"
        "\<not> more_routes s' \<longrightarrow>
           (cs2 = [] \<and> \<not> more_routes s1)
         \<or> (cs2 \<noteq> [] \<and> call_strategy (fst (last cs2)) = ''Exact'' \<and> \<not> snd (last cs2))"
    by blast
  show ?case
  proof (intro exI [of _ "cs1 @ cs2"] conjI impI)
    show "calls s' = calls s @ cs1 @ cs2" using c1(1) c2(1) by simp
    assume "\<not> more_routes s'"
    with c2(2) consider "cs2 = []" "\<not> more_routes s1"
      | "cs2 \<noteq> []" "call_strategy (fst (last cs2)) = ''Exact''" "\<not> snd (last cs2)"
      by blast
    then show "(cs1 @ cs2 = [] \<and> \<not> more_routes s)
        \<or> (cs1 @ cs2 \<noteq> [] \<and> call_strategy (fst (last (cs1 @ cs2))) = ''Exact''
            \<and> \<not> snd (last (cs1 @ cs2)))"
    proof cases
      case 1
      with c1(2) show ?thesis by simp
    next
      case 2
      then show ?thesis by simp
    qed
  qed
qed

text \<open>An iteration that starts with the flag true and ends with the flag false.\<close>

lemma find_columns_flag:
  assumes "find_columns X s w = Inr (s', w')" and "more_routes s" and "\<not> more_routes s'"
    and "pricing_strategy s = ''Hyper'' \<longrightarrow>
           (\<forall>v. fst (pick_heurestic X v) \<in> {''BestPaths'', ''BestEdges1'', ''BestEdges2'', ''Exact''})"
  shows "\<exists>cs. calls s' = calls s @ cs \<and> cs \<noteq> []
           \<and> call_strategy (fst (last cs)) = ''Exact'' \<and> \<not> snd (last cs)"
proof -
  from assms(1) obtain d relaxed_cost m1 w1 best_paths freq m2 strategy s2 w2 s3 w3 where
    p: "pick_strategy X relaxed_cost freq (set_pool (mp_routes m2) (s\<lparr>masterproblem := m2\<rparr>)) w1
         = (strategy, s2, w2)"
    and l: "for_loop [0..<vehicle_types s2] (find_columns_vehicle X strategy d) (s2, w2)
         = Inr (s3, w3)"
    and t: "track_convergence relaxed_cost s3 = Inr s'"
    by (rule find_columns_cases)
  note e = pick_strategy_effect [OF p]
  from e have e2: "calls s2 = calls s" "pricing_strategy s2 = pricing_strategy s"
    "more_routes s2 = more_routes s"
    by (simp_all add: set_pool_def)
  have known: "pricing_strategy s2 \<noteq> ''Hyper''
         \<or> strategy \<in> {''BestPaths'', ''BestEdges1'', ''BestEdges2'', ''Exact''}"
  proof (cases "pricing_strategy s = ''Hyper''")
    case True
    with e have "strategy = ''BestPaths'' \<or> strategy = ''Exact''
          \<or> (\<exists>v. strategy = fst (pick_heurestic X v))"
      by (simp add: set_pool_def)
    with assms(4) True show ?thesis by auto
  next
    case False
    with e2 show ?thesis by simp
  qed
  from vehicles_flag [OF l known] obtain cs where
    c: "calls s3 = calls s2 @ cs"
       "\<not> more_routes s3 \<longrightarrow>
          (cs = [] \<and> \<not> more_routes s2)
        \<or> (cs \<noteq> [] \<and> call_strategy (fst (last cs)) = ''Exact'' \<and> \<not> snd (last cs))"
    by blast
  from track_convergence_effect [OF t] have t3: "calls s' = calls s3" "more_routes s' = more_routes s3"
    by simp_all
  from c t3 e2 assms(2) assms(3) show ?thesis
    by (intro exI [of _ cs]) auto
qed


lemma find_columns_kept:
  assumes "find_columns X s w = Inr (s', w')"
  shows "pricing_strategy s' = pricing_strategy s \<and> vehicle_types s' = vehicle_types s
       \<and> dive s' = dive s \<and> max_iter s' = max_iter s \<and> time_limit s' = time_limit s
       \<and> start_time s' = start_time s"
proof -
  from assms obtain d relaxed_cost m1 w1 best_paths freq m2 strategy s2 w2 s3 w3 where
    p: "pick_strategy X relaxed_cost freq (set_pool (mp_routes m2) (s\<lparr>masterproblem := m2\<rparr>)) w1
         = (strategy, s2, w2)"
    and l: "for_loop [0..<vehicle_types s2] (find_columns_vehicle X strategy d) (s2, w2)
         = Inr (s3, w3)"
    and t: "track_convergence relaxed_cost s3 = Inr s'"
    by (rule find_columns_cases)
  from pick_strategy_effect [OF p] vehicles_kept [OF l] track_convergence_effect [OF t]
  show ?thesis
    by (simp add: set_pool_def config_kept_def)
qed

lemma find_columns_counter:
  assumes "find_columns X s w = Inr (s', w')"
    and "solve_master X s w = Inr ((d, relaxed_cost), m, w0)"
  shows "no_improvement s' =
           (if 1 \<le> iteration s \<and> relaxed_cost = last (lower_bound s)
            then (if no_improvement s = do_exact s then 0 else no_improvement s) + 1 else 0)
       \<and> (1 \<le> iteration s \<longrightarrow> lower_bound s \<noteq> [])
       \<and> iteration s' = iteration s + 1
       \<and> lower_bound s' = (if dive s then lower_bound s else lower_bound s @ [relaxed_cost])
       \<and> (pricing_strategy s \<noteq> ''Hyper'' \<longrightarrow> do_exact s' = do_exact s)"
proof -
  from assms(1) obtain d' rc m1 w1 best_paths freq m2 strategy s2 w2 s3 w3 where
    a: "solve_master X s w = Inr ((d', rc), m1, w1)"
    and p: "pick_strategy X rc freq (set_pool (mp_routes m2) (s\<lparr>masterproblem := m2\<rparr>)) w1
         = (strategy, s2, w2)"
    and l: "for_loop [0..<vehicle_types s2] (find_columns_vehicle X strategy d') (s2, w2)
         = Inr (s3, w3)"
    and t: "track_convergence rc s3 = Inr s'"
    by (rule find_columns_cases)
  from a assms(2) have rc: "rc = relaxed_cost" by simp
  from pick_strategy_effect [OF p] vehicles_kept [OF l] track_convergence_effect [OF t] rc
  show ?thesis
    by (simp add: set_pool_def config_kept_def)
qed

lemma column_generation_flag_false:
  "\<not> more_routes s \<Longrightarrow> column_generation n X s w = Some (Inr (Converged, s, w))"
  by (cases n) simp_all

lemma column_generation_step:
  assumes "more_routes s" and "column_generation (Suc n) X s w = Some (Inr (e, s', w'))"
  obtains s1 w1 up w2 where "find_columns X s w = Inr (s1, w1)" "time_up X s1 w1 = (up, w2)"
    "up \<longrightarrow> e = TimeUp \<and> s' = s1 \<and> w' = w2"
    "\<not> up \<and> limit_passed s1 \<longrightarrow> e = LimitPassed \<and> s' = s1 \<and> w' = w2"
    "\<not> up \<and> \<not> limit_passed s1 \<longrightarrow> column_generation n X s1 w2 = Some (Inr (e, s', w'))"
proof -
  from assms obtain s1 w1 where f: "find_columns X s w = Inr (s1, w1)"
    by (auto split: sum.splits)
  obtain up w2 where u: "time_up X s1 w1 = (up, w2)"
    by (cases "time_up X s1 w1")
  from assms f u show thesis
    by (intro that [OF f u]) (auto split: if_splits)
qed

section \<open>Leaving the loop\<close>

text \<open>\<open>_lock\<close> clears the flag exactly when it leaves the network with two nodes, and changes
  nothing else but the network.\<close>

lemma lock_flag:
  assumes "lock s = Inr s1"
  shows "more_routes s1 = (more_routes s \<and> length (node_list (vrp_G s1)) \<noteq> 2)"
    and "calls s1 = calls s" and "masterproblem s1 = masterproblem s"
    and "pricing_strategy s1 = pricing_strategy s"
  using assms
  by (auto simp add: lock_def split: sum.splits if_splits)

text \<open>The loop entered with the flag true: when it is left by its condition, the state at the
  exit is the result of an iteration whose last pricing call was exact and found no route.\<close>

lemma converged_after_iteration:
  assumes "column_generation n X s w = Some (Inr (Converged, s', w'))" and "more_routes s"
    and "pricing_strategy s = ''Hyper'' \<longrightarrow>
           (\<forall>v. fst (pick_heurestic X v) \<in> {''BestPaths'', ''BestEdges1'', ''BestEdges2'', ''Exact''})"
  shows "\<exists>sp wp wq cs. more_routes sp \<and> find_columns X sp wp = Inr (s', wq)
           \<and> calls s' = calls sp @ cs \<and> cs \<noteq> []
           \<and> call_strategy (fst (last cs)) = ''Exact'' \<and> \<not> snd (last cs)"
  using assms
proof (induction n arbitrary: s w)
  case 0
  then show ?case by simp
next
  case (Suc n)
  from Suc.prems(2) Suc.prems(1) obtain s1 w1 up w2 where
    f: "find_columns X s w = Inr (s1, w1)"
    and r: "\<not> up \<and> \<not> limit_passed s1 \<longrightarrow>
              column_generation n X s1 w2 = Some (Inr (Converged, s', w'))"
    and x: "up \<longrightarrow> Converged = TimeUp \<and> s' = s1 \<and> w' = w2"
       "\<not> up \<and> limit_passed s1 \<longrightarrow> Converged = LimitPassed \<and> s' = s1 \<and> w' = w2"
    by (rule column_generation_step) blast
  from x have "\<not> up \<and> \<not> limit_passed s1" by auto
  with r have c: "column_generation n X s1 w2 = Some (Inr (Converged, s', w'))" by simp
  show ?case
  proof (cases "more_routes s1")
    case True
    from find_columns_kept [OF f] Suc.prems(3)
    have "pricing_strategy s1 = ''Hyper'' \<longrightarrow>
           (\<forall>v. fst (pick_heurestic X v) \<in> {''BestPaths'', ''BestEdges1'', ''BestEdges2'', ''Exact''})"
      by simp
    from Suc.IH [OF c True this] show ?thesis .
  next
    case False
    with c have e: "s' = s1" by (simp add: column_generation_flag_false)
    from find_columns_flag [OF f Suc.prems(2) False Suc.prems(3)] obtain cs where
      "calls s1 = calls s @ cs" "cs \<noteq> []" "call_strategy (fst (last cs)) = ''Exact''"
      "\<not> snd (last cs)"
      by blast
    with e f Suc.prems(2) show ?thesis
      by (intro exI [of _ s] exI [of _ w] exI [of _ w1] exI [of _ cs]) simp
  qed
qed

text \<open>
  C2, as the program has it. Let the loop be left by its condition, and let the
  hyper-heuristic, when it is in use, pick one of the four strategies. Then one of two things
  has happened. Either the flag \<open>_more_routes\<close> was false already when the loop was entered (as
  \<open>_lock\<close> leaves it when every vertex is preassigned): then no iteration has run, no pricing
  call was made, and the state is the one at the entry. Or the flag was true at the entry: then
  the state at the exit is the result of an iteration that was started with the flag true, and
  the last pricing call of that iteration was a call of the strategy \<open>Exact\<close> that found no
  route.
\<close>

theorem converged_after_exact:
  assumes "column_generation n X s w = Some (Inr (Converged, s', w'))"
    and "pricing_strategy s = ''Hyper'' \<longrightarrow>
           (\<forall>v. fst (pick_heurestic X v) \<in> {''BestPaths'', ''BestEdges1'', ''BestEdges2'', ''Exact''})"
  shows "(\<not> more_routes s \<and> s' = s \<and> w' = w)
       \<or> (more_routes s
          \<and> (\<exists>sp wp wq cs. more_routes sp \<and> find_columns X sp wp = Inr (s', wq)
                \<and> calls s' = calls sp @ cs \<and> cs \<noteq> []
                \<and> call_strategy (fst (last cs)) = ''Exact'' \<and> \<not> snd (last cs)))"
proof (cases "more_routes s")
  case True
  from converged_after_iteration [OF assms(1) True assms(2)] True show ?thesis
    by blast
next
  case False
  with assms(1) show ?thesis
    by (simp add: column_generation_flag_false)
qed

text \<open>
  C3, as the program has it. Let \<open>relaxed_cost\<close> be the objective of the relaxed master problem
  of an iteration that ends normally. In the first iteration, and whenever \<open>relaxed_cost\<close>
  differs from the last recorded lower bound, the counter ends at 0. Otherwise it ends at one
  more than the value it has after the choice of the strategy, which is 0 when the counter
  was equal to \<open>do_exact\<close> at the start of the iteration and is its old value otherwise. After
  an iteration that leaves the counter above 1000 the loop ends.
\<close>

theorem no_improvement_counter:
  assumes "find_columns X s w = Inr (s', w1)"
    and "solve_master X s w = Inr ((d, relaxed_cost), m, w0)"
  shows "no_improvement s' =
           (if 1 \<le> iteration s \<and> relaxed_cost = last (lower_bound s)
            then (if no_improvement s = do_exact s then 0 else no_improvement s) + 1 else 0)
       \<and> (1 \<le> iteration s \<longrightarrow> lower_bound s \<noteq> [])
       \<and> (more_routes s \<and> 1000 < no_improvement s' \<longrightarrow>
            (\<exists>e w2. column_generation (Suc n) X s w = Some (Inr (e, s', w2))
                    \<and> (e = TimeUp \<or> e = LimitPassed)))"
proof -
  have "\<exists>e w2. column_generation (Suc n) X s w = Some (Inr (e, s', w2))
                    \<and> (e = TimeUp \<or> e = LimitPassed)"
    if "more_routes s" and "1000 < no_improvement s'"
  proof -
    obtain up w2 where u: "time_up X s' w1 = (up, w2)"
      by (cases "time_up X s' w1")
    from that(2) have "limit_passed s'" by (simp add: limit_passed_def)
    with that(1) assms(1) u show ?thesis
      by (cases up) simp_all
  qed
  with find_columns_counter [OF assms] show ?thesis by simp
qed

text \<open>Under the old approach the counter stays at or below \<open>do_exact\<close>.\<close>

lemma counter_bounded:
  assumes "find_columns X s w = Inr (s', w')" and "pricing_strategy s \<noteq> ''Hyper''"
    and "no_improvement s \<le> do_exact s" and "1 \<le> do_exact s"
  shows "no_improvement s' \<le> do_exact s' \<and> do_exact s' = do_exact s"
proof -
  from assms(1) obtain d relaxed_cost m w0 where
    "solve_master X s w = Inr ((d, relaxed_cost), m, w0)"
    by (auto simp add: find_columns_def split: sum.splits)
  from find_columns_counter [OF assms(1) this] assms(2-4) show ?thesis
    by auto
qed

lemma counter_never_passes_limit:
  assumes "column_generation n X s w = Some (Inr (e, s', w'))"
    and "pricing_strategy s \<noteq> ''Hyper''"
    and "no_improvement s \<le> do_exact s" and "1 \<le> do_exact s" and "do_exact s \<le> 1000"
  shows "no_improvement s' \<le> 1000"
  using assms
proof (induction n arbitrary: s w)
  case 0
  then show ?case by (auto split: if_splits)
next
  case (Suc n)
  show ?case
  proof (cases "more_routes s")
    case False
    with Suc.prems(1) have "s' = s" by (simp add: column_generation_flag_false)
    with Suc.prems show ?thesis by simp
  next
    case True
    from True Suc.prems(1) obtain s1 w1 up w2 where
      f: "find_columns X s w = Inr (s1, w1)"
      and x: "up \<longrightarrow> e = TimeUp \<and> s' = s1 \<and> w' = w2"
         "\<not> up \<and> limit_passed s1 \<longrightarrow> e = LimitPassed \<and> s' = s1 \<and> w' = w2"
         "\<not> up \<and> \<not> limit_passed s1 \<longrightarrow> column_generation n X s1 w2 = Some (Inr (e, s', w'))"
      by (rule column_generation_step) blast
    from counter_bounded [OF f Suc.prems(2) Suc.prems(3) Suc.prems(4)]
    have b: "no_improvement s1 \<le> do_exact s1" "do_exact s1 = do_exact s" by simp_all
    from find_columns_kept [OF f] Suc.prems(2) have ps: "pricing_strategy s1 \<noteq> ''Hyper''"
      by simp
    show ?thesis
    proof (cases "\<not> up \<and> \<not> limit_passed s1")
      case True
      with x(3) have "column_generation n X s1 w2 = Some (Inr (e, s', w'))" by simp
      from Suc.IH [OF this ps] b Suc.prems(4) Suc.prems(5) show ?thesis by simp
    next
      case False
      with x have "s' = s1" by auto
      with b Suc.prems(5) show ?thesis by simp
    qed
  qed
qed



section \<open>Runs on the example data\<close>

lemmas eval_defs = find_columns_def solve_master_def solve_def solve_lp_def
  set_variable_types_def store_solution_def get_duals_def get_heuristic_distribution_def
  pick_strategy_def find_columns_vehicle_def greedy_pass_def price_vehicle_def
  solve_subproblem_with_heuristic_def attempt_solve_best_paths_def attempt_solve_Exact_def
  call_subproblem_def get_time_remaining_def truthy_def set_pool_def track_convergence_def
  py_get_last py_set_last update_def add_route_selection_variable_def route_column_def
  covering_terms_def bound_terms_def
  example_ext_def example_solution_def example_vrp_def example_master_def example_network_def
  example_route_def example_variable_def

text \<open>Under the configured strategy BestPaths, with pricing that never finds a route, the
  iteration makes the four calls of the sweep and then the exact call.\<close>

theorem old_approach_escalates_witness:
  "pricing_strategy (example_vrp ''BestPaths'' None) \<noteq> ''Hyper''
   \<and> 0 < vehicle_types (example_vrp ''BestPaths'' None)
   \<and> (case find_columns example_ext_fail (example_vrp ''BestPaths'' None) () of
        Inl e \<Rightarrow> False
      | Inr (s', w') \<Rightarrow>
          map (\<lambda>c. (call_strategy (fst c), call_parameter (fst c), snd c)) (calls s')
            = [(''BestPaths'', Some 3, False), (''BestPaths'', Some 5, False),
               (''BestPaths'', Some 7, False), (''BestPaths'', Some 9, False),
               (''Exact'', None, False)])"
proof -
  have "\<exists>s' w'. find_columns example_ext_fail (example_vrp ''BestPaths'' None) () = Inr (s', w')
          \<and> map (\<lambda>c. (call_strategy (fst c), call_parameter (fst c), snd c)) (calls s')
            = [(''BestPaths'', Some 3, False), (''BestPaths'', Some 5, False),
               (''BestPaths'', Some 7, False), (''BestPaths'', Some 9, False),
               (''Exact'', None, False)]"
    by (simp add: eval_defs example_ext_fail_def)
  then obtain s' w' where
    h: "find_columns example_ext_fail (example_vrp ''BestPaths'' None) () = Inr (s', w')"
    and c: "map (\<lambda>c. (call_strategy (fst c), call_parameter (fst c), snd c)) (calls s')
            = [(''BestPaths'', Some 3, False), (''BestPaths'', Some 5, False),
               (''BestPaths'', Some 7, False), (''BestPaths'', Some 9, False),
               (''Exact'', None, False)]"
    by auto
  have p: "pricing_strategy (example_vrp ''BestPaths'' None) \<noteq> ''Hyper''"
    and v: "0 < vehicle_types (example_vrp ''BestPaths'' None)"
    by (simp_all add: example_vrp_def)
  from old_approach_escalates [OF h p v] h c p v show ?thesis
    by simp
qed

text \<open>C1 as stated fails for the configured strategy \<open>Hyper\<close>: when the hyper-heuristic picks
  BestPaths and pricing never finds a route, the iteration ends after the four calls of the
  sweep, with no column produced and without any call of the strategy \<open>Exact\<close>.\<close>

theorem hyper_does_not_escalate:
  "pricing_strategy (example_vrp ''Hyper'' None) = ''Hyper''
   \<and> (case find_columns example_ext_fail (example_vrp ''Hyper'' None) () of
        Inl e \<Rightarrow> False
      | Inr (s', w') \<Rightarrow>
          map (\<lambda>c. (call_strategy (fst c), call_parameter (fst c), snd c)) (calls s')
            = [(''BestPaths'', Some 3, False), (''BestPaths'', Some 5, False),
               (''BestPaths'', Some 7, False), (''BestPaths'', Some 9, False)]
          \<and> produced_column s' = Some False \<and> iteration s' = 1)"
  by (simp add: eval_defs example_ext_fail_def)

text \<open>With pricing that never finds a route the loop, entered with the flag true, is left by
  its condition after one iteration, whose last call was exact and found nothing.\<close>

theorem converged_after_exact_witness:
  "more_routes (example_vrp ''BestPaths'' None)
   \<and> pricing_strategy (example_vrp ''BestPaths'' None) \<noteq> ''Hyper''
   \<and> map_option (map_sum id (\<lambda>r. (fst r, call_strategy (fst (last (calls (fst (snd r))))),
                                    snd (last (calls (fst (snd r)))))))
        (column_generation (Suc 0) example_ext_fail (example_vrp ''BestPaths'' None) ())
       = Some (Inr (Converged, ''Exact'', False))"
proof -
  have "\<exists>s' w'. column_generation (Suc 0) example_ext_fail (example_vrp ''BestPaths'' None) ()
                = Some (Inr (Converged, s', w'))
          \<and> call_strategy (fst (last (calls s'))) = ''Exact'' \<and> \<not> snd (last (calls s'))"
    by (simp add: eval_defs time_up_def limit_passed_def example_ext_fail_def)
  then obtain s' w' where
    h: "column_generation (Suc 0) example_ext_fail (example_vrp ''BestPaths'' None) ()
          = Some (Inr (Converged, s', w'))"
    and c: "call_strategy (fst (last (calls s'))) = ''Exact''" "\<not> snd (last (calls s'))"
    by auto
  have m: "more_routes (example_vrp ''BestPaths'' None)"
    and p: "pricing_strategy (example_vrp ''BestPaths'' None) \<noteq> ''Hyper''"
    by (simp_all add: example_vrp_def)
  from p have k: "pricing_strategy (example_vrp ''BestPaths'' None) = ''Hyper'' \<longrightarrow>
     (\<forall>v. fst (pick_heurestic example_ext_fail v)
            \<in> {''BestPaths'', ''BestEdges1'', ''BestEdges2'', ''Exact''})"
    by simp
  from converged_after_exact [OF h k] h c m p show ?thesis
    by simp
qed

text \<open>C2 as stated fails when every vertex is preassigned. \<open>solve\<close> has set the flag; \<open>_lock\<close>
  removes the two customers of the preassigned route, finds the network with two nodes and
  clears the flag; the loop is then left by its condition at once, however many iterations it
  is allowed, without any pricing call, exact or not.\<close>

theorem locked_loop_converges:
  "more_routes example_locked \<and> calls example_locked = []
   \<and> (\<exists>s1. lock example_locked = Inr s1
          \<and> node_list (vrp_G s1) = [Source, Sink] \<and> \<not> more_routes s1 \<and> calls s1 = []
          \<and> (\<forall>n. column_generation n example_ext_fail s1 () = Some (Inr (Converged, s1, ()))))"
proof -
  have "\<exists>s1. lock example_locked = Inr s1
          \<and> node_list (vrp_G s1) = [Source, Sink] \<and> \<not> more_routes s1 \<and> calls s1 = []"
    by (simp add: lock_def lock_route_def remove_nodes_from_def py_get_def py_index_def
        example_locked_def example_vrp_def example_network_def)
  then obtain s1 where l: "lock example_locked = Inr s1"
    and g: "node_list (vrp_G s1) = [Source, Sink]" and f: "\<not> more_routes s1"
    and c: "calls s1 = []"
    by blast
  from f have "column_generation n example_ext_fail s1 () = Some (Inr (Converged, s1, ()))" for n
    by (rule column_generation_flag_false)
  with l g f c show ?thesis
    by (simp add: example_locked_def example_vrp_def)
qed

text \<open>With \<open>do_exact\<close> at 30 and the counter at 1001, an iteration without improvement takes
  the counter to 1002 and the loop ends.\<close>

theorem no_improvement_counter_witness:
  "more_routes (example_stalled ''Hyper'' 30 1500 1001)
   \<and> map_option (map_sum id (\<lambda>r. (fst r, no_improvement (fst (snd r)))))
        (column_generation (Suc 0) example_ext_found (example_stalled ''Hyper'' 30 1500 1001) ())
       = Some (Inr (LimitPassed, 1002))"
proof -
  have "\<exists>d m w0 s' w1.
          solve_master example_ext_found (example_stalled ''Hyper'' 30 1500 1001) ()
            = Inr ((d, Some 3), m, w0)
        \<and> find_columns example_ext_found (example_stalled ''Hyper'' 30 1500 1001) () = Inr (s', w1)
        \<and> no_improvement s' = 1002
        \<and> column_generation (Suc 0) example_ext_found (example_stalled ''Hyper'' 30 1500 1001) ()
            = Some (Inr (LimitPassed, s', ()))"
    by (simp add: eval_defs time_up_def limit_passed_def example_ext_found_def
        example_stalled_def)
  then obtain d m w0 s' w1 where
    a: "solve_master example_ext_found (example_stalled ''Hyper'' 30 1500 1001) ()
            = Inr ((d, Some 3), m, w0)"
    and f: "find_columns example_ext_found (example_stalled ''Hyper'' 30 1500 1001) () = Inr (s', w1)"
    and c: "no_improvement s' = 1002"
    and g: "column_generation (Suc 0) example_ext_found (example_stalled ''Hyper'' 30 1500 1001) ()
            = Some (Inr (LimitPassed, s', ()))"
    by auto
  have m: "more_routes (example_stalled ''Hyper'' 30 1500 1001)"
    by (simp add: example_stalled_def example_vrp_def)
  from no_improvement_counter [OF f a, of 0] m c g show ?thesis
    by simp
qed

text \<open>C3 as stated fails when the counter has reached \<open>do_exact\<close>: after 1000 iterations
  without improvement, the next iteration has the same objective again, yet the counter ends
  at 1, not at 1001, and the loop goes on.\<close>

theorem counter_reset_at_do_exact:
  "pricing_strategy (example_stalled ''Exact'' 1000 1001 1000) = ''Exact''
   \<and> no_improvement (example_stalled ''Exact'' 1000 1001 1000) = 1000
   \<and> (case find_columns example_ext_found (example_stalled ''Exact'' 1000 1001 1000) () of
        Inl e \<Rightarrow> False
      | Inr (s', w') \<Rightarrow>
          lower_bound s' = lower_bound (example_stalled ''Exact'' 1000 1001 1000)
                             @ [last (lower_bound (example_stalled ''Exact'' 1000 1001 1000))]
        \<and> no_improvement s' = 1)
   \<and> column_generation (Suc 0) example_ext_found (example_stalled ''Exact'' 1000 1001 1000) ()
       = None"
  by (simp add: eval_defs time_up_def limit_passed_def example_ext_found_def example_stalled_def)


section \<open>Initial routes, to graphs and back\<close>


lemma pairs_simps [simp]:
  "pairs [] = []" "pairs [x] = []" "pairs (x # v # zs) = (x, v) # pairs (v # zs)"
  by (simp_all add: pairs_def)

lemma map_snd_pairs: "map snd (pairs xs) = tl xs"
  by (simp add: pairs_def)

lemma map_fst_pairs: "map fst (pairs xs) = butlast xs"
  by (simp add: pairs_def)

lemma pairs_fst_in: "(a, b) \<in> set (pairs xs) \<Longrightarrow> a \<in> set (butlast xs)"
  by (metis fst_conv image_eqI list.set_map map_fst_pairs)

lemma pairs_snd_in: "(a, b) \<in> set (pairs xs) \<Longrightarrow> b \<in> set (tl xs)"
  by (metis snd_conv image_eqI list.set_map map_snd_pairs)

lemma tl_in_pairs: "b \<in> set (tl xs) \<Longrightarrow> \<exists>a. (a, b) \<in> set (pairs xs)"
proof -
  assume "b \<in> set (tl xs)"
  then have "b \<in> snd ` set (pairs xs)"
    by (metis list.set_map map_snd_pairs)
  then show ?thesis by auto
qed

lemma path_unique:
  assumes "distinct r" and "r \<noteq> []" and "p \<noteq> []" and "hd p = hd r" and "last p = last r"
    and "set (pairs p) \<subseteq> set (pairs r)"
  shows "p = r"
  using assms
proof (induction r arbitrary: p)
  case Nil
  then show ?case by simp
next
  case (Cons x r')
  from Cons.prems(3) Cons.prems(4) obtain p' where p: "p = x # p'"
    by (cases p) auto
  show ?case
  proof (cases r')
    case Nil
    have "pairs (x # r') = []" using Nil by simp
    with Cons.prems(6) have "set (pairs p) = {}" by simp
    with p have "p' = []" by (cases p') auto
    with p Nil show ?thesis by simp
  next
    case (Cons v r'')
    note r' = this
    have xnot: "x \<notin> set r'" using Cons.prems(1) by simp
    show ?thesis
    proof (cases p')
      case Nil
      with p Cons.prems(5) r' have "x = last r'" by simp
      moreover have "last r' \<in> set r'" using r' by simp
      ultimately show ?thesis using xnot by simp
    next
      case (Cons z p'')
      note p' = this
      from p p' Cons.prems(6) r' have "(x, z) \<in> set (pairs (x # v # r''))" by auto
      then have "(x, z) = (x, v) \<or> (x, z) \<in> set (pairs (v # r''))" by simp
      moreover have "(x, z) \<notin> set (pairs (v # r''))"
      proof
        assume "(x, z) \<in> set (pairs (v # r''))"
        then have "x \<in> set (butlast (v # r''))" by (rule pairs_fst_in)
        then have "x \<in> set (v # r'')" by (rule in_set_butlastD)
        with xnot r' show False by simp
      qed
      ultimately have z: "z = v" by simp
      have sub_tl: "set (tl p') \<subseteq> set r'"
      proof
        fix b assume "b \<in> set (tl p')"
        from tl_in_pairs [OF this] obtain a where "(a, b) \<in> set (pairs p')" by blast
        with p p' have "(a, b) \<in> set (pairs p)" by simp
        with Cons.prems(6) have "(a, b) \<in> set (pairs (x # r'))" by auto
        from pairs_snd_in [OF this] show "b \<in> set r'" by simp
      qed
      have xp: "x \<notin> set p'"
      proof
        assume "x \<in> set p'"
        with p' have "x = z \<or> x \<in> set (tl p')" by auto
        with z r' xnot sub_tl show False by auto
      qed
      have sub: "set (pairs p') \<subseteq> set (pairs r')"
      proof
        fix e assume e: "e \<in> set (pairs p')"
        obtain a b where ab: "e = (a, b)" by (cases e)
        from e ab have "a \<in> set (butlast p')" by (simp add: pairs_fst_in)
        then have "a \<in> set p'" by (rule in_set_butlastD)
        with xp have ax: "a \<noteq> x" by auto
        from e p p' have "e \<in> set (pairs p)" by simp
        with Cons.prems(6) r' have "e \<in> set (pairs (x # v # r''))" by auto
        with ab ax r' show "e \<in> set (pairs r')" by simp
      qed
      have "p' = r'"
      proof (rule Cons.IH)
        show "distinct r'" using Cons.prems(1) by simp
        show "r' \<noteq> []" using r' by simp
        show "p' \<noteq> []" using p' by simp
        show "hd p' = hd r'" using p' z r' by simp
        show "last p' = last r'" using Cons.prems(5) p p' r' by simp
        show "set (pairs p') \<subseteq> set (pairs r')" by (rule sub)
      qed
      with p show ?thesis by simp
    qed
  qed
qed


lemma add_edge_effect:
  "edges (add_edge i j c g) = (edges g)((i, j) \<mapsto> c) \<and> name (add_edge i j c g) = name g
   \<and> vehicle_type (add_edge i j c g) = vehicle_type g
   \<and> heuristic (add_edge i j c g) = heuristic g"
  by (simp add: add_edge_def add_node_def)

lemma route_edges_loop:
  assumes "for_loop es (route_edge G) (g0, t0) = Inr (g, t)"
  shows "(\<forall>e. (edges g e \<noteq> None) = (e \<in> set es \<or> edges g0 e \<noteq> None))
       \<and> name g = name g0"
  using assms
proof (induction es arbitrary: g0 t0)
  case Nil
  then show ?case by simp
next
  case (Cons e es)
  from Cons.prems obtain s1 where b: "route_edge G e (g0, t0) = Inr s1"
    and r1: "for_loop es (route_edge G) s1 = Inr (g, t)"
    by (auto split: sum.splits)
  from b obtain c where s1: "s1 = (add_edge (fst e) (snd e) c g0, t0 + c)"
    by (auto simp add: route_edge_def split: sum.splits)
  from r1 s1 have
    r: "for_loop es (route_edge G) (add_edge (fst e) (snd e) c g0, t0 + c) = Inr (g, t)"
    by simp
  from Cons.IH [OF r] add_edge_effect [of "fst e" "snd e" c g0] show ?case
    by auto
qed

lemma route_digraph_edges:
  assumes "route_digraph G k r = Inr g"
  shows "(edges g e \<noteq> None) = (e \<in> set (pairs r))" and "name g = k" and "vehicle_type g = 0"
proof -
  from assms obtain g1 t where
    l: "for_loop (zip (butlast r) (tl r)) (route_edge G) (DiGraph k, 0) = Inr (g1, t)"
    and g: "g = g1\<lparr>cost := t, vehicle_type := 0\<rparr>"
    by (auto simp add: route_digraph_def split: sum.splits)
  from route_edges_loop [OF l] have
    e1: "\<forall>e. (edges g1 e \<noteq> None) = (e \<in> set (zip (butlast r) (tl r)) \<or> edges (DiGraph k) e \<noteq> None)"
    and n1: "name g1 = name (DiGraph k)"
    by simp_all
  from spec [OF e1, of e] have "(edges g1 e \<noteq> None) = (e \<in> set (zip (butlast r) (tl r)))"
    by (simp add: DiGraph_def)
  with g show "(edges g e \<noteq> None) = (e \<in> set (pairs r))"
    by (simp add: pairs_def)
  from n1 g show "name g = k" by (simp add: DiGraph_def)
  from g show "vehicle_type g = 0" by simp
qed

lemma follows_edges_pairs:
  assumes "route_digraph G k r = Inr g"
  shows "follows_edges g p = (set (pairs p) \<subseteq> set (pairs r))"
  using route_digraph_edges(1) [OF assms]
  by (auto simp add: follows_edges_def list_all_iff pairs_def)

text \<open>In the graph of a route without repeated nodes the only list of nodes that leads from
  Source to Sink along edges is the route itself.\<close>

lemma route_digraph_path:
  assumes "route_digraph G k r = Inr g"
    and "r \<noteq> []" and "hd r = Source" and "last r = Sink" and "distinct r"
  shows "source_sink_path g p = (p = r)"
proof
  assume "source_sink_path g p"
  then have "p \<noteq> []" "hd p = hd r" "last p = last r" "set (pairs p) \<subseteq> set (pairs r)"
    using assms(3) assms(4) follows_edges_pairs [OF assms(1)]
    by (simp_all add: source_sink_path_def)
  with assms(5) assms(2) show "p = r"
    by (intro path_unique)
next
  assume "p = r"
  with assms follows_edges_pairs [OF assms(1)] show "source_sink_path g p"
    by (simp add: source_sink_path_def)
qed

lemma shortest_path_of_route:
  assumes "route_digraph G k r = Inr g"
    and "r \<noteq> []" and "hd r = Source" and "last r = Sink" and "distinct r"
    and "networkx_shortest_path sp g"
  shows "sp g Source Sink = Inr r"
proof (cases "sp g Source Sink")
  case (Inl e)
  with assms(6) have "\<not> source_sink_path g r"
    by (simp add: networkx_shortest_path_def)
  with route_digraph_path [OF assms(1-5)] show ?thesis by simp
next
  case (Inr p)
  with assms(6) have "source_sink_path g p"
    by (simp add: networkx_shortest_path_def shortest_source_sink_path_def)
  with route_digraph_path [OF assms(1-5)] Inr show ?thesis by simp
qed

lemma convert_loop_graphs:
  assumes "convert_loop G rs (k, pool, rwn) = Inr (k', pool', rwn')"
  shows "\<exists>gs. pool' = pool @ gs
          \<and> list_all2 (\<lambda>r g. \<exists>i. route_digraph G i r = Inr g) rs gs"
  using assms
proof (induction rs arbitrary: k pool rwn)
  case Nil
  then show ?case by simp
next
  case (Cons r rs)
  from Cons.prems obtain g where g: "route_digraph G (k + 1) r = Inr g"
    and l: "convert_loop G rs
              (k + 1, pool @ [g], foldl (\<lambda>m v. file_route g v m) rwn (butlast (tl r)))
            = Inr (k', pool', rwn')"
    by (auto split: sum.splits)
  from Cons.IH [OF l] obtain gs where
    gs: "pool' = (pool @ [g]) @ gs"
        "list_all2 (\<lambda>r g. \<exists>i. route_digraph G i r = Inr g) rs gs"
    by blast
  with g show ?case
    by (intro exI [of _ "g # gs"]) auto
qed

lemma node_lists_loop_routes:
  assumes "list_all2 (\<lambda>r g. sp g Source Sink = Inr r) rs gs"
  shows "\<exists>types'. node_lists_loop sp gs (k, best, types)
           = Inr (k + length rs,
                  (\<lambda>j. if k \<le> j \<and> j < k + length rs then Some (rs ! (j - k)) else best j),
                  types')"
  using assms
proof (induction rs gs arbitrary: k best types rule: list_all2_induct)
  case Nil
  have "(\<lambda>j. if k \<le> j \<and> j < k + length ([] :: node list list) then Some ([] ! (j - k)) else best j)
        = best"
    by (rule ext) auto
  then show ?case by simp
next
  case (Cons r rs g gs)
  from Cons.IH [of "k + 1" "best(k \<mapsto> r)" "types(k \<mapsto> vehicle_type g)"] obtain types' where
    t: "node_lists_loop sp gs (k + 1, best(k \<mapsto> r), types(k \<mapsto> vehicle_type g))
         = Inr (k + 1 + length rs,
                (\<lambda>j. if k + 1 \<le> j \<and> j < k + 1 + length rs then Some (rs ! (j - (k + 1)))
                      else (best(k \<mapsto> r)) j),
                types')"
    by blast
  have "(\<lambda>j. if k + 1 \<le> j \<and> j < k + 1 + length rs then Some (rs ! (j - (k + 1)))
                      else (best(k \<mapsto> r)) j)
        = (\<lambda>j. if k \<le> j \<and> j < k + length (r # rs) then Some ((r # rs) ! (j - k)) else best j)"
    by (rule ext) (auto simp add: nth_Cons' less_Suc_eq_le)
  with t Cons.hyps(1) show ?case
    by (intro exI [of _ types']) simp
qed

text \<open>
  C8, as the program has it. Let every initial route start at Source, end at Sink and visit
  no node twice, let the conversion to graphs succeed, and let \<open>shortest_path\<close> keep the
  promise of networkx on the graphs built. Then converting the graphs back yields, under the
  numbers 1, 2, ... in the order of the initial routes, exactly the node lists that were given.
\<close>

theorem initial_routes_round_trip:
  assumes "convert_initial_routes_to_digraphs s = Inr s'"
    and "\<forall>r \<in> set (initial_routes s). r \<noteq> [] \<and> hd r = Source \<and> last r = Sink \<and> distinct r"
    and "\<forall>g \<in> set (routes_pool s'). networkx_shortest_path sp g"
  shows "\<exists>types. best_routes_as_node_lists sp (routes_pool s')
           = Inr (1 + length (initial_routes s),
                  (\<lambda>j. if 1 \<le> j \<and> j < 1 + length (initial_routes s)
                        then Some (initial_routes s ! (j - 1)) else None),
                  types)"
proof -
  from assms(1) obtain k pool rwn where
    c: "convert_loop (vrp_G s) (initial_routes s) (0, [], Map.empty) = Inr (k, pool, rwn)"
    and p: "routes_pool s' = pool"
    by (auto simp add: convert_initial_routes_to_digraphs_def split: sum.splits)
  from convert_loop_graphs [OF c] have
    g: "list_all2 (\<lambda>r g. \<exists>i. route_digraph (vrp_G s) i r = Inr g) (initial_routes s) pool"
    by simp
  have "list_all2 (\<lambda>r g. sp g Source Sink = Inr r) (initial_routes s) pool"
  proof (rule list.rel_mono_strong [OF g])
    fix r g
    assume r: "r \<in> set (initial_routes s)" and gp: "g \<in> set pool"
      and "\<exists>i. route_digraph (vrp_G s) i r = Inr g"
    then obtain i where "route_digraph (vrp_G s) i r = Inr g" by blast
    from shortest_path_of_route [OF this] r gp assms(2) assms(3) p
    show "sp g Source Sink = Inr r" by simp
  qed
  then have "\<exists>types'. node_lists_loop sp pool (1, Map.empty, Map.empty)
           = Inr (1 + length (initial_routes s),
                  (\<lambda>j. if 1 \<le> j \<and> j < 1 + length (initial_routes s)
                        then Some (initial_routes s ! (j - 1)) else Map.empty j),
                  types')"
    by (rule node_lists_loop_routes)
  with p show ?thesis
    by (simp add: best_routes_as_node_lists_def)
qed


lemma route_is_shortest:
  assumes "route_digraph G k r = Inr g"
    and "r \<noteq> []" and "hd r = Source" and "last r = Sink" and "distinct r"
  shows "shortest_source_sink_path g r"
  using route_digraph_path [OF assms]
  by (simp add: shortest_source_sink_path_def)

lemma at_least_three:
  assumes "source_sink_path g q" and "edges g (Source, Sink) = None"
  shows "3 \<le> length q"
proof (cases q)
  case Nil
  with assms(1) show ?thesis by (simp add: source_sink_path_def)
next
  case (Cons a q1)
  note q = this
  show ?thesis
  proof (cases q1)
    case Nil
    with q assms(1) have "Source = Sink" by (auto simp add: source_sink_path_def)
    then show ?thesis by simp
  next
    case (Cons b q2)
    note q1 = this
    show ?thesis
    proof (cases q2)
      case Nil
      with q q1 assms show ?thesis
        by (auto simp add: source_sink_path_def follows_edges_def)
    next
      case (Cons c q3)
      with q q1 show ?thesis by simp
    qed
  qed
qed

lemmas route_eval = route_digraph_def route_edge_def first_cost_def add_edge_def add_node_def
  DiGraph_def example_network_def py_get_def py_index_def

text \<open>Two initial routes, through the customers 1 and 2 and through customer 2.\<close>

theorem initial_routes_round_trip_witness:
  "(case convert_initial_routes_to_digraphs
           (example_initial [[Source, Num 1, Num 2, Sink], [Source, Num 2, Sink]]) of
      Inl e \<Rightarrow> False
    | Inr s' \<Rightarrow>
        list_all (networkx_shortest_path nodes_in_order) (routes_pool s')
      \<and> (case best_routes_as_node_lists nodes_in_order (routes_pool s') of
           Inl e \<Rightarrow> False
         | Inr (k, best, types) \<Rightarrow>
             best 1 = Some [Source, Num 1, Num 2, Sink] \<and> best 2 = Some [Source, Num 2, Sink]
           \<and> best 3 = None))"
proof -
  have "\<exists>s' g1 g2. convert_initial_routes_to_digraphs
                (example_initial [[Source, Num 1, Num 2, Sink], [Source, Num 2, Sink]]) = Inr s'
             \<and> routes_pool s' = [g1, g2]
             \<and> route_digraph example_network 1 [Source, Num 1, Num 2, Sink] = Inr g1
             \<and> route_digraph example_network 2 [Source, Num 2, Sink] = Inr g2
             \<and> nodes g1 = [Source, Num 1, Num 2, Sink] \<and> nodes g2 = [Source, Num 2, Sink]"
    by (simp add: convert_initial_routes_to_digraphs_def example_initial_def example_vrp_def
        route_eval)
  then obtain s' g1 g2 where
    h: "convert_initial_routes_to_digraphs
          (example_initial [[Source, Num 1, Num 2, Sink], [Source, Num 2, Sink]]) = Inr s'"
    and p: "routes_pool s' = [g1, g2]"
    and e1: "route_digraph example_network 1 [Source, Num 1, Num 2, Sink] = Inr g1"
    and e2: "route_digraph example_network 2 [Source, Num 2, Sink] = Inr g2"
    and n: "nodes g1 = [Source, Num 1, Num 2, Sink]" "nodes g2 = [Source, Num 2, Sink]"
    by auto
  have v: "\<forall>r \<in> set (initial_routes
                 (example_initial [[Source, Num 1, Num 2, Sink], [Source, Num 2, Sink]])).
              r \<noteq> [] \<and> hd r = Source \<and> last r = Sink \<and> distinct r"
    by (simp add: example_initial_def)
  have s1: "networkx_shortest_path nodes_in_order g1"
    using route_is_shortest [OF e1] n
    by (simp add: networkx_shortest_path_def nodes_in_order_def)
  have s2: "networkx_shortest_path nodes_in_order g2"
    using route_is_shortest [OF e2] n
    by (simp add: networkx_shortest_path_def nodes_in_order_def)
  from s1 s2 p have c: "\<forall>g \<in> set (routes_pool s'). networkx_shortest_path nodes_in_order g"
    by simp
  from initial_routes_round_trip [OF h v c] h p s1 s2 show ?thesis
    by (auto simp add: example_initial_def)
qed

text \<open>C8 as stated fails for a route that visits a node twice: the graph of the route Source,
  1, 2, 1, Sink has the edges Source-1, 1-2, 2-1 and 1-Sink, its shortest path from Source to
  Sink is Source, 1, Sink, and this is what the conversion back yields.\<close>

theorem repeated_node_round_trip:
  "initial_routes (example_initial [[Source, Num 1, Num 2, Num 1, Sink]])
     = [[Source, Num 1, Num 2, Num 1, Sink]]
   \<and> (case convert_initial_routes_to_digraphs
              (example_initial [[Source, Num 1, Num 2, Num 1, Sink]]) of
        Inl e \<Rightarrow> False
      | Inr s' \<Rightarrow>
          list_all (networkx_shortest_path through_node_1) (routes_pool s')
        \<and> (case best_routes_as_node_lists through_node_1 (routes_pool s') of
             Inl e \<Rightarrow> False
           | Inr (k, best, types) \<Rightarrow> best 1 = Some [Source, Num 1, Sink]))"
proof -
  have "\<exists>s' g. convert_initial_routes_to_digraphs
                (example_initial [[Source, Num 1, Num 2, Num 1, Sink]]) = Inr s'
             \<and> routes_pool s' = [g]
             \<and> source_sink_path g [Source, Num 1, Sink] \<and> edges g (Source, Sink) = None"
    by (simp add: convert_initial_routes_to_digraphs_def example_initial_def example_vrp_def
        route_eval source_sink_path_def follows_edges_def)
  then obtain s' g where
    c: "convert_initial_routes_to_digraphs
          (example_initial [[Source, Num 1, Num 2, Num 1, Sink]]) = Inr s'"
    and r: "routes_pool s' = [g]"
    and p: "source_sink_path g [Source, Num 1, Sink]" and n: "edges g (Source, Sink) = None"
    by auto
  have "length [Source, Num 1, Sink] \<le> length q" if "source_sink_path g q" for q
    using at_least_three [OF that n] by simp
  with p have "shortest_source_sink_path g [Source, Num 1, Sink]"
    unfolding shortest_source_sink_path_def by blast
  then have s: "networkx_shortest_path through_node_1 g"
    by (simp add: networkx_shortest_path_def through_node_1_def)
  from c r s show ?thesis
    by (simp add: example_initial_def best_routes_as_node_lists_def through_node_1_def)
qed

end
